theory Spec2Isabelle
  imports Main "HOL-Library.Word"
begin

section \<open>The data the pass reads\<close>

text \<open>
  Model of \<^verbatim>\<open>lib/SILOptimizer/Mandatory/DiagnoseStaticExclusivity.cpp\<close>.
  Pointers to AST nodes, declarations, globals and SIL values are compared by address in
  the source; here every such object carries a numeric identity as its first component and
  is compared structurally.
\<close>

type_synonym SourceLoc = nat
type_synonym SourceRange = "nat \<times> nat"

datatype ProtocolDecl = ProtocolDecl nat

datatype DeclKind = VarDeclKind | FuncDeclKind | SubscriptDeclKind | OtherDeclKind

text \<open>
  A declaration, with what the pass asks of it: its class (\<open>declKind\<close>), the two values
  printed in a diagnostic, the protocol (or protocol extension) it is declared in, and for
  each protocol requirement it satisfies the protocol that requirement is declared in
  (\<open>None\<close> where the source's assertion "Protocol requirement not in a protocol?" fails).
\<close>

record ValueDecl =
  declId :: nat
  declKind :: DeclKind
  getDescriptiveKind :: string
  getBaseName :: string
  getAsProtocolOrProtocolExtensionContext :: "ProtocolDecl option"
  getSatisfiedProtocolRequirements :: "ProtocolDecl option list"

datatype Expr =
    InOutExpr nat Expr SourceRange
  | SubscriptExpr nat Expr Expr "ValueDecl option" SourceRange
  | ParenExpr nat Expr SourceRange
  | TupleExpr nat "Expr list" SourceRange
  | CallExpr nat Expr Expr "ValueDecl option" SourceRange
  | DotSyntaxBaseIgnoredExpr nat Expr Expr SourceRange
  | DeclRefExpr nat ValueDecl SourceRange
  | OtherExpr nat SourceRange

datatype ASTNode = ExprNode Expr | DeclNode ValueDecl | OtherNode nat

text \<open>
  A \<^verbatim>\<open>SILLocation\<close>: the AST node it wraps (none for a null location), its source
  position and its source range.
\<close>

datatype SILLocation = SILLocation "ASTNode option" SourceLoc SourceRange

fun isNull :: "SILLocation \<Rightarrow> bool" where
  "isNull (SILLocation n _ _) = (n = None)"

fun getSourceLoc :: "SILLocation \<Rightarrow> SourceLoc" where
  "getSourceLoc (SILLocation _ l _) = l"

fun getSourceRange :: "SILLocation \<Rightarrow> SourceRange" where
  "getSourceRange (SILLocation _ _ r) = r"

text \<open>
  \<^verbatim>\<open>getAsASTNode<T>\<close> for a class of declarations; the two classes of expressions the
  pass asks for follow with the Fix-It.
\<close>

fun getAsDecl :: "DeclKind \<Rightarrow> SILLocation \<Rightarrow> ValueDecl option" where
  "getAsDecl k (SILLocation (Some (DeclNode d)) _ _) = (if declKind d = k then Some d else None)"
| "getAsDecl k _ = None"

text \<open>
  \<^verbatim>\<open>SILAccessKind\<close>, as \<^verbatim>\<open>swift/SIL/SILInstruction.h\<close> declares it. The
  file modelled here names \<open>Read\<close> and \<open>Modify\<close> only: it tells a read from every
  other kind ("non-read", "write-like"), and asks for \<open>Modify\<close> itself in the Fix-It.
\<close>

datatype SILAccessKind = Init | Read | Modify | Deinit

record SILGlobalVariable =
  globalId :: nat
  getDecl :: "ValueDecl option"

datatype Projection = Projection nat

datatype SILValue =
    GlobalAddrInst nat SILGlobalVariable
  | RefElementAddrInst nat SILValue Projection
  | BeginBorrowInst nat SILValue
  | ProjectBoxInst nat SILValue
  | CopyValueInst nat SILValue
  | MarkUninitializedInst nat SILValue
  | UncheckedAddrCastInst nat SILValue
  | StructElementAddrInst nat SILValue
  | TupleElementAddrInst nat SILValue
  | UncheckedTakeEnumDataAddrInst nat SILValue
  | RefTailAddrInst nat SILValue
  | TailAddrInst nat SILValue SILValue
  | IndexAddrInst nat SILValue SILValue
  | AllocBoxInst nat SILLocation
  | AllocStackInst nat
  | BeginAccessValue BeginAccessInst
  | SILFunctionArgument nat "ValueDecl option"
  | PointerToAddressInst nat SILValue
  | InitEnumDataAddrInst nat SILValue
  | InitExistentialAddrInst nat SILValue
  | OpenExistentialAddrInst nat SILValue
  | OtherValue nat
and BeginAccessInst =
    BeginAccessInst nat SILAccessKind SILValue SILLocation

fun getAccessKind :: "BeginAccessInst \<Rightarrow> SILAccessKind" where
  "getAccessKind (BeginAccessInst _ k _ _) = k"

fun getSource :: "BeginAccessInst \<Rightarrow> SILValue" where
  "getSource (BeginAccessInst _ _ v _) = v"

fun getLoc :: "BeginAccessInst \<Rightarrow> SILLocation" where
  "getLoc (BeginAccessInst _ _ _ l) = l"

section \<open>Storage identity\<close>

datatype ObjectProjection = ObjectProjection SILValue Projection

text \<open>
  \<^verbatim>\<open>AccessedStorage\<close>: the kind tag and the union member it selects, one constructor
  for each \<^verbatim>\<open>AccessedStorageKind\<close>.
\<close>

datatype AccessedStorage =
    Value SILValue
  | GlobalVar SILGlobalVariable
  | ClassProperty ObjectProjection

datatype AccessedStorageKind = ValueKind | GlobalVarKind | ClassPropertyKind

fun getKind :: "AccessedStorage \<Rightarrow> AccessedStorageKind" where
  "getKind (Value _) = ValueKind"
| "getKind (GlobalVar _) = GlobalVarKind"
| "getKind (ClassProperty _) = ClassPropertyKind"

text \<open>\<^verbatim>\<open>DenseMapInfo<AccessedStorage>::isEqual\<close>.\<close>

fun isEqual :: "AccessedStorage \<Rightarrow> AccessedStorage \<Rightarrow> bool" where
  "isEqual LHS RHS =
     (if getKind LHS \<noteq> getKind RHS then False
      else (case (LHS, RHS) of
              (Value a, Value b) \<Rightarrow> a = b
            | (GlobalVar g, GlobalVar h) \<Rightarrow> g = h
            | (ClassProperty (ObjectProjection o1 p1), ClassProperty (ObjectProjection o2 p2)) \<Rightarrow>
                o1 = o2 \<and> p1 = p2
            | _ \<Rightarrow> False))"

section \<open>In-progress accesses of one location\<close>

text \<open>\<^verbatim>\<open>AccessInfo\<close>; the counters are \<^verbatim>\<open>unsigned\<close>, 32 bits wide.\<close>

record AccessInfo =
  Reads :: "32 word"
  NonReads :: "32 word"
  FirstAccess :: "BeginAccessInst option"

definition emptyAccessInfo :: AccessInfo where
  "emptyAccessInfo = \<lparr>Reads = 0, NonReads = 0, FirstAccess = None\<rparr>"

definition conflictsWithAccess :: "AccessInfo \<Rightarrow> SILAccessKind \<Rightarrow> bool" where
  "conflictsWithAccess info Kind =
     (if Kind = Read then 0 < NonReads info
      else 0 < NonReads info \<or> 0 < Reads info)"

definition alreadyHadConflict :: "AccessInfo \<Rightarrow> bool" where
  "alreadyHadConflict info = ((0 < NonReads info \<and> 0 < Reads info) \<or> 1 < NonReads info)"

definition hasAccessesInProgress :: "AccessInfo \<Rightarrow> bool" where
  "hasAccessesInProgress info = (0 < Reads info \<or> 0 < NonReads info)"


text \<open>
  How a run of the pass can stop before its end: \<^verbatim>\<open>llvm_unreachable\<close>, a failed
  \<^verbatim>\<open>assert\<close> (assertions enabled; this includes the checks inside \<^verbatim>\<open>cast<>\<close>,
  \<^verbatim>\<open>Optional::operator*\<close> and \<^verbatim>\<open>ArrayRef::operator[]\<close>), and a step the source
  takes without any check and C++ leaves undefined.
\<close>

datatype fault =
    Unreachable string
  | AssertionFailed string
  | UndefinedBehavior string

definition beginAccess :: "AccessInfo \<Rightarrow> BeginAccessInst \<Rightarrow> fault + AccessInfo" where
  "beginAccess info BAI =
     (if FirstAccess info = None \<and> \<not> (Reads info = 0 \<and> NonReads info = 0)
      then Inl (AssertionFailed ''Reads == 0 && NonReads == 0'')
      else
        (let info1 = (if FirstAccess info = None then info\<lparr>FirstAccess := Some BAI\<rparr> else info)
         in if getAccessKind BAI = Read
            then Inr (info1\<lparr>Reads := Reads info1 + 1\<rparr>)
            else Inr (info1\<lparr>NonReads := NonReads info1 + 1\<rparr>)))"

text \<open>
  An \<^verbatim>\<open>EndAccessInst\<close> holds the \<^verbatim>\<open>BeginAccessInst\<close> it ends as its operand
  ("This is encoded in the EndAccessInst itself"); its source is that instruction's source.
\<close>

datatype EndAccessInst = EndAccessInst nat BeginAccessInst

fun getBeginAccess :: "EndAccessInst \<Rightarrow> BeginAccessInst" where
  "getBeginAccess (EndAccessInst _ b) = b"

definition endAccess :: "AccessInfo \<Rightarrow> EndAccessInst \<Rightarrow> AccessInfo" where
  "endAccess info EAI =
     (let info1 = (if getAccessKind (getBeginAccess EAI) = Read
                   then info\<lparr>Reads := Reads info - 1\<rparr>
                   else info\<lparr>NonReads := NonReads info - 1\<rparr>)
      in if Reads info1 = 0 \<and> NonReads info1 = 0
         then info1\<lparr>FirstAccess := None\<rparr>
         else info1)"

section \<open>Finding the accessed storage\<close>

text \<open>
  The loop of \<^verbatim>\<open>findUnderlyingObject\<close> follows the operand of each
  \<^verbatim>\<open>begin_borrow\<close>; the assertions on the SIL type of the value are about types, which
  this model does not carry.
\<close>

fun findUnderlyingObject :: "SILValue \<Rightarrow> SILValue" where
  "findUnderlyingObject (BeginBorrowInst _ v) = findUnderlyingObject v"
| "findUnderlyingObject v = v"

fun findAccessedStorage :: "SILValue \<Rightarrow> fault + AccessedStorage" where
  "findAccessedStorage (GlobalAddrInst _ g) = Inr (GlobalVar g)"
| "findAccessedStorage (RefElementAddrInst _ obj p) =
     Inr (ClassProperty (ObjectProjection (findUnderlyingObject obj) p))"
| "findAccessedStorage (ProjectBoxInst _ v) = findAccessedStorage v"
| "findAccessedStorage (CopyValueInst _ v) = findAccessedStorage v"
| "findAccessedStorage (MarkUninitializedInst _ v) = findAccessedStorage v"
| "findAccessedStorage (UncheckedAddrCastInst _ v) = findAccessedStorage v"
| "findAccessedStorage (StructElementAddrInst _ v) = findAccessedStorage v"
| "findAccessedStorage (TupleElementAddrInst _ v) = findAccessedStorage v"
| "findAccessedStorage (UncheckedTakeEnumDataAddrInst _ v) = findAccessedStorage v"
| "findAccessedStorage (RefTailAddrInst _ v) = findAccessedStorage v"
| "findAccessedStorage (TailAddrInst _ v _) = findAccessedStorage v"
| "findAccessedStorage (IndexAddrInst _ v _) = findAccessedStorage v"
| "findAccessedStorage (AllocBoxInst n l) = Inr (Value (AllocBoxInst n l))"
| "findAccessedStorage (AllocStackInst n) = Inr (Value (AllocStackInst n))"
| "findAccessedStorage (BeginAccessValue b) = Inr (Value (BeginAccessValue b))"
| "findAccessedStorage (SILFunctionArgument n d) = Inr (Value (SILFunctionArgument n d))"
| "findAccessedStorage (PointerToAddressInst n v) = Inr (Value (PointerToAddressInst n v))"
| "findAccessedStorage (InitEnumDataAddrInst _ _) = Inl (Unreachable ''Unexpected access source.'')"
| "findAccessedStorage (InitExistentialAddrInst _ _) = Inl (Unreachable ''Unexpected access source.'')"
| "findAccessedStorage (OpenExistentialAddrInst _ _) = Inl (Unreachable ''Unexpected access source.'')"
| "findAccessedStorage (BeginBorrowInst _ _) = Inl (Unreachable ''Unexpected access source.'')"
| "findAccessedStorage (OtherValue _) = Inl (Unreachable ''Unexpected access source.'')"


section \<open>The walk over the control-flow graph\<close>

text \<open>
  What the pass asks of the \<^verbatim>\<open>ASTContext\<close>: the language version, the declarations of
  \<^verbatim>\<open>swap\<close> and \<^verbatim>\<open>MutableCollection\<close> (absent when the standard library is not
  loaded), and the text of a source range (the \<^verbatim>\<open>Lexer\<close> and the
  \<^verbatim>\<open>SourceManager\<close> together). \<open>getVarDecl\<close> stands for
  \<^verbatim>\<open>Projection::getVarDecl\<close>, which reads the field declaration off the type of the
  object; the model holds it here since values carry no type.
\<close>

record ASTContext =
  isSwiftVersion3 :: bool
  getSwap :: "ValueDecl option"
  getMutableCollectionDecl :: "ProtocolDecl option"
  extractText :: "SourceRange \<Rightarrow> string"
  getVarDecl :: "Projection \<Rightarrow> SILValue \<Rightarrow> ValueDecl option"

record SILFunctionRef =
  hasLocation :: bool
  getLocation :: SILLocation

record ApplyInst =
  applyId :: nat
  getReferencedFunction :: "SILFunctionRef option"
  applyLoc :: SILLocation

definition isCallToStandardLibrarySwap :: "ApplyInst \<Rightarrow> ASTContext \<Rightarrow> bool" where
  "isCallToStandardLibrarySwap AI Ctx =
     (case getReferencedFunction AI of
        None \<Rightarrow> False
      | Some SF \<Rightarrow>
          if \<not> hasLocation SF then False
          else (case getAsDecl FuncDeclKind (getLocation SF) of
                  None \<Rightarrow> False
                | Some FD \<Rightarrow> Some FD = getSwap Ctx))"

datatype SILInstruction =
    BeginAccess BeginAccessInst
  | EndAccess EndAccessInst
  | Apply ApplyInst
  | ReturnInst
  | OtherInst nat

type_synonym StorageMap = "AccessedStorage \<rightharpoonup> AccessInfo"

datatype ConflictingAccess = ConflictingAccess AccessedStorage BeginAccessInst BeginAccessInst

text \<open>
  The variables the instruction loop of \<^verbatim>\<open>checkStaticExclusivity\<close> updates: the
  in-progress accesses of the current block, and the two function-wide vectors.
\<close>

record LoopState =
  Accesses :: StorageMap
  ConflictingAccesses :: "ConflictingAccess list"
  CallsToSwap :: "ApplyInst list"

text \<open>
  One iteration of the loop over the instructions of a block. \<^verbatim>\<open>Accesses[Storage]\<close>
  inserts a zero record for a missing key. At an \<^verbatim>\<open>end_access\<close> the source
  dereferences the iterator that \<^verbatim>\<open>find\<close> returns without comparing it to
  \<^verbatim>\<open>end()\<close>.
\<close>

definition visitInstruction :: "ASTContext \<Rightarrow> SILInstruction \<Rightarrow> LoopState \<Rightarrow> fault + LoopState" where
  "visitInstruction Ctx I st =
     (case I of
        BeginAccess BAI \<Rightarrow>
          (case findAccessedStorage (getSource BAI) of
             Inl e \<Rightarrow> Inl e
           | Inr Storage \<Rightarrow>
               (let Info = (case Accesses st Storage of None \<Rightarrow> emptyAccessInfo | Some i \<Rightarrow> i)
                in if conflictsWithAccess Info (getAccessKind BAI) \<and> \<not> alreadyHadConflict Info
                   then (case FirstAccess Info of
                           None \<Rightarrow> Inl (AssertionFailed ''Must already have had access to conflict!'')
                         | Some Conflict \<Rightarrow>
                             (case beginAccess Info BAI of
                                Inl e \<Rightarrow> Inl e
                              | Inr Info' \<Rightarrow>
                                  Inr (st\<lparr>Accesses := (Accesses st)(Storage \<mapsto> Info'),
                                          ConflictingAccesses := ConflictingAccesses st @
                                            [ConflictingAccess Storage Conflict BAI]\<rparr>)))
                   else (case beginAccess Info BAI of
                           Inl e \<Rightarrow> Inl e
                         | Inr Info' \<Rightarrow> Inr (st\<lparr>Accesses := (Accesses st)(Storage \<mapsto> Info')\<rparr>))))
      | EndAccess EAI \<Rightarrow>
          (case findAccessedStorage (getSource (getBeginAccess EAI)) of
             Inl e \<Rightarrow> Inl e
           | Inr Storage \<Rightarrow>
               (case Accesses st Storage of
                  None \<Rightarrow> Inl (UndefinedBehavior ''dereferencing end() iterator'')
                | Some Info \<Rightarrow>
                    (let Info' = endAccess Info EAI
                     in if \<not> hasAccessesInProgress Info'
                        then Inr (st\<lparr>Accesses := (Accesses st)(Storage := None)\<rparr>)
                        else Inr (st\<lparr>Accesses := (Accesses st)(Storage \<mapsto> Info')\<rparr>))))
      | Apply AI \<Rightarrow>
          Inr (if isCallToStandardLibrarySwap AI Ctx
               then st\<lparr>CallsToSwap := CallsToSwap st @ [AI]\<rparr> else st)
      | ReturnInst \<Rightarrow>
          (if dom (Accesses st) = {} then Inr st
           else Inl (AssertionFailed ''Entries were not properly removed?!''))
      | OtherInst _ \<Rightarrow> Inr st)"

fun visitInstructions :: "ASTContext \<Rightarrow> SILInstruction list \<Rightarrow> LoopState \<Rightarrow> fault + LoopState" where
  "visitInstructions Ctx [] st = Inr st"
| "visitInstructions Ctx (I # Is) st =
     (case visitInstruction Ctx I st of
        Inl e \<Rightarrow> Inl e
      | Inr st' \<Rightarrow> visitInstructions Ctx Is st')"

text \<open>
  A basic block, named by \<open>blockId\<close> where the source has its address; the predecessors
  are given by their names.
\<close>

record SILBasicBlock =
  blockId :: nat
  getPredecessorBlocks :: "nat list"
  instructions :: "SILInstruction list"

type_synonym BlockOutAccessesMap = "nat \<rightharpoonup> StorageMap option"

text \<open>The search among the predecessors for one whose out state is already there.\<close>

fun findPredecessorState :: "BlockOutAccessesMap \<Rightarrow> nat list \<Rightarrow> StorageMap option \<Rightarrow> StorageMap option" where
  "findPredecessorState B [] BBState = BBState"
| "findPredecessorState B (Pred # Preds) BBState =
     (case B Pred of
        None \<Rightarrow> findPredecessorState B Preds BBState
      | Some None \<Rightarrow> findPredecessorState B Preds BBState
      | Some (Some PredAccesses) \<Rightarrow> Some PredAccesses)"

text \<open>The loop over the blocks in reverse post-order.\<close>

fun visitBlocks ::
  "ASTContext \<Rightarrow> SILBasicBlock list \<Rightarrow> BlockOutAccessesMap \<Rightarrow> ConflictingAccess list \<Rightarrow>
   ApplyInst list \<Rightarrow> fault + (BlockOutAccessesMap \<times> ConflictingAccess list \<times> ApplyInst list)" where
  "visitBlocks Ctx [] B cs sw = Inr (B, cs, sw)"
| "visitBlocks Ctx (BB # BBs) B cs sw =
     (let BBState0 = (case B (blockId BB) of None \<Rightarrow> None | Some s \<Rightarrow> s);
          B0 = B(blockId BB \<mapsto> BBState0);
          BBState = findPredecessorState B0 (getPredecessorBlocks BB) BBState0
      in case BBState of
           None \<Rightarrow> Inl (AssertionFailed ''hasVal'')
         | Some Acc \<Rightarrow>
             (case visitInstructions Ctx (instructions BB)
                     \<lparr>Accesses = Acc, ConflictingAccesses = cs, CallsToSwap = sw\<rparr> of
                Inl e \<Rightarrow> Inl e
              | Inr st \<Rightarrow>
                  visitBlocks Ctx BBs (B(blockId BB \<mapsto> Some (Accesses st)))
                    (ConflictingAccesses st) (CallsToSwap st)))"


section \<open>Diagnostics\<close>

datatype ExclusiveOrShared_t = ExclusiveAccess | SharedAccess

definition getRequiredAccess :: "BeginAccessInst \<Rightarrow> ExclusiveOrShared_t" where
  "getRequiredAccess BAI = (if getAccessKind BAI = Read then SharedAccess else ExclusiveAccess)"

datatype DiagID =
    exclusivity_access_required
  | exclusivity_access_required_swift3
  | exclusivity_access_required_unknown_decl
  | exclusivity_access_required_unknown_decl_swift3
  | exclusivity_conflicting_access

text \<open>
  An argument of a diagnostic. The access kind is passed as
  \<^verbatim>\<open>static_cast<unsigned>\<close> of the enumerator; the model passes the enumerator.
\<close>

datatype DiagnosticArgument =
    DescriptiveKindArg string
  | IdentifierArg string
  | AccessKindArg SILAccessKind

text \<open>
  What the diagnostic engine is handed for one diagnostic: position, message, arguments,
  highlighted ranges and replacements.
\<close>

record Diagnostic =
  diagLoc :: SourceLoc
  diagID :: DiagID
  diagArgs :: "DiagnosticArgument list"
  diagHighlights :: "SourceRange list"
  diagFixIts :: "(SourceRange \<times> string) list"

fun getStorageDecl :: "ASTContext \<Rightarrow> AccessedStorage \<Rightarrow> ValueDecl option" where
  "getStorageDecl Ctx (GlobalVar g) = getDecl g"
| "getStorageDecl Ctx (Value (AllocBoxInst _ l)) = getAsDecl VarDeclKind l"
| "getStorageDecl Ctx (Value (SILFunctionArgument _ d)) = d"
| "getStorageDecl Ctx (Value _) = None"
| "getStorageDecl Ctx (ClassProperty (ObjectProjection obj P)) = getVarDecl Ctx P obj"

fun exprSourceRange :: "Expr \<Rightarrow> SourceRange" where
  "exprSourceRange (InOutExpr _ _ r) = r"
| "exprSourceRange (SubscriptExpr _ _ _ _ r) = r"
| "exprSourceRange (ParenExpr _ _ r) = r"
| "exprSourceRange (TupleExpr _ _ r) = r"
| "exprSourceRange (CallExpr _ _ _ _ r) = r"
| "exprSourceRange (DotSyntaxBaseIgnoredExpr _ _ _ r) = r"
| "exprSourceRange (DeclRefExpr _ _ r) = r"
| "exprSourceRange (OtherExpr _ r) = r"

definition extractExprText :: "Expr \<Rightarrow> ASTContext \<Rightarrow> string" where
  "extractExprText E Ctx = extractText Ctx (exprSourceRange E)"

text \<open>
  The overload of \<^verbatim>\<open>isCallToStandardLibrarySwap\<close> on a call expression, used in an
  assertion only. The fourth component of a \<open>CallExpr\<close> is \<^verbatim>\<open>getCalledValue()\<close>.
\<close>

fun isCallToStandardLibrarySwapExpr :: "Expr \<Rightarrow> ASTContext \<Rightarrow> bool" where
  "isCallToStandardLibrarySwapExpr (CallExpr _ Fn _ called _) Ctx =
     (if called = getSwap Ctx then True
      else (case Fn of
              DotSyntaxBaseIgnoredExpr _ _ (DeclRefExpr _ d _) _ \<Rightarrow> Some d = getSwap Ctx
            | _ \<Rightarrow> False))"
| "isCallToStandardLibrarySwapExpr _ Ctx = False"

fun getAsInOutExpr :: "SILLocation \<Rightarrow> Expr option" where
  "getAsInOutExpr (SILLocation (Some (ExprNode (InOutExpr n e r))) _ _) = Some (InOutExpr n e r)"
| "getAsInOutExpr _ = None"

fun getAsCallExpr :: "SILLocation \<Rightarrow> Expr option" where
  "getAsCallExpr (SILLocation (Some (ExprNode (CallExpr n f a c r))) _ _) = Some (CallExpr n f a c r)"
| "getAsCallExpr _ = None"

text \<open>The loop over the recorded calls to \<^verbatim>\<open>swap\<close>, looking for the one diagnosed.\<close>

fun findSwapCall :: "ASTContext \<Rightarrow> Expr \<Rightarrow> Expr \<Rightarrow> ApplyInst list \<Rightarrow> fault + Expr option" where
  "findSwapCall Ctx InOut1 InOut2 [] = Inr None"
| "findSwapCall Ctx InOut1 InOut2 (AI # AIs) =
     (if isNull (applyLoc AI) then findSwapCall Ctx InOut1 InOut2 AIs
      else (case getAsCallExpr (applyLoc AI) of
              None \<Rightarrow> findSwapCall Ctx InOut1 InOut2 AIs
            | Some CE \<Rightarrow>
                if \<not> isCallToStandardLibrarySwapExpr CE Ctx
                then Inl (AssertionFailed ''isCallToStandardLibrarySwap(CE, Ctx)'')
                else (case CE of
                        CallExpr _ _ (TupleExpr _ (Arg1 # Arg2 # _) _) _ _ \<Rightarrow>
                          if Arg1 = InOut1 \<and> Arg2 = InOut2 then Inr (Some CE)
                          else findSwapCall Ctx InOut1 InOut2 AIs
                      | CallExpr _ _ (TupleExpr _ _ _) _ _ \<Rightarrow>
                          Inl (AssertionFailed ''Invalid index!'')
                      | _ \<Rightarrow> Inl (AssertionFailed ''cast<TupleExpr>''))))"

text \<open>\<^verbatim>\<open>cast<SubscriptDecl>(SE->getDecl().getDecl())\<close>.\<close>

definition castSubscriptDecl :: "ValueDecl option \<Rightarrow> fault + ValueDecl" where
  "castSubscriptDecl d =
     (case d of
        None \<Rightarrow> Inl (AssertionFailed ''cast<SubscriptDecl>'')
      | Some D \<Rightarrow> if declKind D = SubscriptDeclKind then Inr D
                  else Inl (AssertionFailed ''cast<SubscriptDecl>''))"

text \<open>The loop over the protocol requirements the subscript satisfies.\<close>

fun witnessesMutableCollection :: "ProtocolDecl option \<Rightarrow> ProtocolDecl option list \<Rightarrow> fault + bool" where
  "witnessesMutableCollection MC [] = Inr False"
| "witnessesMutableCollection MC (None # Reqs) =
     Inl (AssertionFailed ''Protocol requirement not in a protocol?'')"
| "witnessesMutableCollection MC (Some ReqProto # Reqs) =
     (if Some ReqProto = MC then Inr True else witnessesMutableCollection MC Reqs)"

definition isSubscriptOnMutableCollection :: "ASTContext \<Rightarrow> ValueDecl \<Rightarrow> fault + bool" where
  "isSubscriptOnMutableCollection Ctx Decl1 =
     (case getAsProtocolOrProtocolExtensionContext Decl1 of
        Some ProtocolForDecl \<Rightarrow> Inr (Some ProtocolForDecl = getMutableCollectionDecl Ctx)
      | None \<Rightarrow>
          witnessesMutableCollection (getMutableCollectionDecl Ctx)
            (getSatisfiedProtocolRequirements Decl1))"

text \<open>
  The part of \<^verbatim>\<open>tryFixItWithCallToCollectionSwapAt\<close> after the call is found;
  \<open>Sub1\<close> and \<open>Sub2\<close> are the subexpressions of the two \<open>inout\<close> expressions.
\<close>

definition swapAtFixIt :: "ASTContext \<Rightarrow> Expr \<Rightarrow> Expr \<Rightarrow> Expr \<Rightarrow> fault + (SourceRange \<times> string) option" where
  "swapAtFixIt Ctx FoundCall Sub1 Sub2 =
     (case Sub1 of
        SubscriptExpr _ Base1 Idx1 D1 _ \<Rightarrow>
          (case Sub2 of
             SubscriptExpr _ Base2 Idx2 D2 _ \<Rightarrow>
               (case castSubscriptDecl D1 of
                  Inl e \<Rightarrow> Inl e
                | Inr Decl1 \<Rightarrow>
                    (case castSubscriptDecl D2 of
                       Inl e \<Rightarrow> Inl e
                     | Inr Decl2 \<Rightarrow>
                         if Decl1 \<noteq> Decl2 then Inr None
                         else (case isSubscriptOnMutableCollection Ctx Decl1 of
                                 Inl e \<Rightarrow> Inl e
                               | Inr False \<Rightarrow> Inr None
                               | Inr True \<Rightarrow>
                                   if extractExprText Base1 Ctx \<noteq> extractExprText Base2 Ctx
                                   then Inr None
                                   else (case Idx1 of
                                           ParenExpr _ I1 _ \<Rightarrow>
                                             (case Idx2 of
                                                ParenExpr _ I2 _ \<Rightarrow>
                                                  Inr (Some (exprSourceRange FoundCall,
                                                    extractExprText Base1 Ctx @ ''.swapAt('' @
                                                    extractExprText I1 Ctx @ '', '' @
                                                    extractExprText I2 Ctx @ '')''))
                                              | _ \<Rightarrow> Inr None)
                                         | _ \<Rightarrow> Inr None))))
           | _ \<Rightarrow> Inr None)
      | _ \<Rightarrow> Inr None)"

definition tryFixItWithCallToCollectionSwapAt ::
  "BeginAccessInst \<Rightarrow> BeginAccessInst \<Rightarrow> ApplyInst list \<Rightarrow> ASTContext \<Rightarrow>
   fault + (SourceRange \<times> string) option" where
  "tryFixItWithCallToCollectionSwapAt Access1 Access2 Calls Ctx =
     (if Calls = [] then Inr None
      else if getAccessKind Access1 \<noteq> Modify \<or> getAccessKind Access2 \<noteq> Modify then Inr None
      else if isNull (getLoc Access1) \<or> isNull (getLoc Access2) then Inr None
      else (case (getAsInOutExpr (getLoc Access1), getAsInOutExpr (getLoc Access2)) of
              (Some (InOutExpr n1 Sub1 r1), Some (InOutExpr n2 Sub2 r2)) \<Rightarrow>
                (case findSwapCall Ctx (InOutExpr n1 Sub1 r1) (InOutExpr n2 Sub2 r2) Calls of
                   Inl e \<Rightarrow> Inl e
                 | Inr None \<Rightarrow> Inr None
                 | Inr (Some FoundCall) \<Rightarrow> swapAtFixIt Ctx FoundCall Sub1 Sub2)
            | _ \<Rightarrow> Inr None))"

text \<open>
  \<^verbatim>\<open>diagnoseExclusivityViolation\<close>: the diagnostics it hands over, main diagnostic
  first; an assertion that fails does so before either is handed over.
\<close>

definition diagnoseExclusivityViolation ::
  "AccessedStorage \<Rightarrow> BeginAccessInst \<Rightarrow> BeginAccessInst \<Rightarrow> ApplyInst list \<Rightarrow> ASTContext \<Rightarrow>
   fault + Diagnostic list" where
  "diagnoseExclusivityViolation Storage PriorAccess NewAccess Calls Ctx =
     (if getAccessKind PriorAccess = Read \<and> getAccessKind NewAccess = Read
      then Inl (AssertionFailed ''both accesses are reads'')
      else
        (let PriorRequires = getRequiredAccess PriorAccess;
             AccessForMainDiagnostic =
               (if PriorRequires \<noteq> ExclusiveAccess then NewAccess else PriorAccess);
             AccessForNote =
               (if PriorRequires \<noteq> ExclusiveAccess then PriorAccess else NewAccess);
             rangeForMain = getSourceRange (getLoc AccessForMainDiagnostic);
             AccessKindForMain = getAccessKind AccessForMainDiagnostic;
             Note = \<lparr>diagLoc = getSourceLoc (getLoc AccessForNote),
                     diagID = exclusivity_conflicting_access,
                     diagArgs = [],
                     diagHighlights = [getSourceRange (getLoc AccessForNote)],
                     diagFixIts = []\<rparr>
         in case getStorageDecl Ctx Storage of
              Some VD \<Rightarrow>
                (case tryFixItWithCallToCollectionSwapAt PriorAccess NewAccess Calls Ctx of
                   Inl e \<Rightarrow> Inl e
                 | Inr fix \<Rightarrow>
                     Inr [\<lparr>diagLoc = getSourceLoc (getLoc AccessForMainDiagnostic),
                           diagID = (if isSwiftVersion3 Ctx then exclusivity_access_required_swift3
                                     else exclusivity_access_required),
                           diagArgs = [DescriptiveKindArg (getDescriptiveKind VD),
                                       IdentifierArg (getBaseName VD),
                                       AccessKindArg AccessKindForMain],
                           diagHighlights = [rangeForMain],
                           diagFixIts = (case fix of None \<Rightarrow> [] | Some f \<Rightarrow> [f])\<rparr>,
                          Note])
            | None \<Rightarrow>
                Inr [\<lparr>diagLoc = getSourceLoc (getLoc AccessForMainDiagnostic),
                      diagID = (if isSwiftVersion3 Ctx
                                then exclusivity_access_required_unknown_decl_swift3
                                else exclusivity_access_required_unknown_decl),
                      diagArgs = [AccessKindArg AccessKindForMain],
                      diagHighlights = [rangeForMain],
                      diagFixIts = []\<rparr>,
                     Note]))"

text \<open>
  The loop that emits the collected violations. A run that stops at a failed assertion has
  handed over the diagnostics of the violations before it.
\<close>

fun emitDiagnostics :: "ASTContext \<Rightarrow> ApplyInst list \<Rightarrow> ConflictingAccess list \<Rightarrow> Diagnostic list \<times> fault option" where
  "emitDiagnostics Ctx Calls [] = ([], None)"
| "emitDiagnostics Ctx Calls (ConflictingAccess Storage PriorAccess NewAccess # Vs) =
     (case diagnoseExclusivityViolation Storage PriorAccess NewAccess Calls Ctx of
        Inl e \<Rightarrow> ([], Some e)
      | Inr ds \<Rightarrow> (case emitDiagnostics Ctx Calls Vs of (ds', f) \<Rightarrow> (ds @ ds', f)))"

text \<open>
  A function: its blocks, the entry block first, and its \<^verbatim>\<open>ASTContext\<close>. The second
  argument of \<^verbatim>\<open>checkStaticExclusivity\<close> is the reverse post-order of the blocks, as
  \<^verbatim>\<open>PostOrderFunctionInfo\<close> gives it.
\<close>

record SILFunction =
  blocks :: "SILBasicBlock list"
  getASTContext :: ASTContext

definition checkStaticExclusivity :: "SILFunction \<Rightarrow> SILBasicBlock list \<Rightarrow> Diagnostic list \<times> fault option" where
  "checkStaticExclusivity Fn PO =
     (case blocks Fn of
        [] \<Rightarrow> ([], None)
      | EntryBlock # _ \<Rightarrow>
          (case visitBlocks (getASTContext Fn) PO [blockId EntryBlock \<mapsto> Some Map.empty] [] [] of
             Inl e \<Rightarrow> ([], Some e)
           | Inr (B, cs, sw) \<Rightarrow> emitDiagnostics (getASTContext Fn) sw cs))"


section \<open>Notions used to state the properties\<close>

text \<open>
  The producers the resolver looks through, with the operand it follows, and the producers
  it accepts as a base.
\<close>

fun lookThroughOperand :: "SILValue \<Rightarrow> SILValue option" where
  "lookThroughOperand (ProjectBoxInst _ v) = Some v"
| "lookThroughOperand (CopyValueInst _ v) = Some v"
| "lookThroughOperand (MarkUninitializedInst _ v) = Some v"
| "lookThroughOperand (UncheckedAddrCastInst _ v) = Some v"
| "lookThroughOperand (StructElementAddrInst _ v) = Some v"
| "lookThroughOperand (TupleElementAddrInst _ v) = Some v"
| "lookThroughOperand (UncheckedTakeEnumDataAddrInst _ v) = Some v"
| "lookThroughOperand (RefTailAddrInst _ v) = Some v"
| "lookThroughOperand (TailAddrInst _ v _) = Some v"
| "lookThroughOperand (IndexAddrInst _ v _) = Some v"
| "lookThroughOperand _ = None"

fun isBaseAddressProducer :: "SILValue \<Rightarrow> bool" where
  "isBaseAddressProducer (GlobalAddrInst _ _) = True"
| "isBaseAddressProducer (RefElementAddrInst _ _ _) = True"
| "isBaseAddressProducer (AllocBoxInst _ _) = True"
| "isBaseAddressProducer (AllocStackInst _) = True"
| "isBaseAddressProducer (BeginAccessValue _) = True"
| "isBaseAddressProducer (SILFunctionArgument _ _) = True"
| "isBaseAddressProducer (PointerToAddressInst _ _) = True"
| "isBaseAddressProducer _ = False"

definition unsupportedProducer :: "SILValue \<Rightarrow> bool" where
  "unsupportedProducer w = (lookThroughOperand w = None \<and> \<not> isBaseAddressProducer w)"

text \<open>
  The chain of producers behind an address: the value, then the operand of each producer
  that is looked through, up to the first producer that is not.
\<close>

fun producerChain :: "SILValue \<Rightarrow> SILValue list" where
  "producerChain (ProjectBoxInst n v) = ProjectBoxInst n v # producerChain v"
| "producerChain (CopyValueInst n v) = CopyValueInst n v # producerChain v"
| "producerChain (MarkUninitializedInst n v) = MarkUninitializedInst n v # producerChain v"
| "producerChain (UncheckedAddrCastInst n v) = UncheckedAddrCastInst n v # producerChain v"
| "producerChain (StructElementAddrInst n v) = StructElementAddrInst n v # producerChain v"
| "producerChain (TupleElementAddrInst n v) = TupleElementAddrInst n v # producerChain v"
| "producerChain (UncheckedTakeEnumDataAddrInst n v) =
     UncheckedTakeEnumDataAddrInst n v # producerChain v"
| "producerChain (RefTailAddrInst n v) = RefTailAddrInst n v # producerChain v"
| "producerChain (TailAddrInst n v i) = TailAddrInst n v i # producerChain v"
| "producerChain (IndexAddrInst n v i) = IndexAddrInst n v i # producerChain v"
| "producerChain v = [v]"

text \<open>An access marker that begins or ends a read; any other instruction passes.\<close>

definition readOnlyMarker :: "SILInstruction \<Rightarrow> bool" where
  "readOnlyMarker I =
     (case I of
        BeginAccess b \<Rightarrow> getAccessKind b = Read
      | EndAccess e \<Rightarrow> getAccessKind (getBeginAccess e) = Read
      | _ \<Rightarrow> True)"

definition noNonReads :: "StorageMap \<Rightarrow> bool" where
  "noNonReads m = (\<forall>s i. m s = Some i \<longrightarrow> NonReads i = 0)"

text \<open>
  The accesses that are open after a run of instructions, in the order they were begun,
  starting from the open accesses \<open>opn\<close>. The result is \<open>None\<close> when the markers
  are not well formed: an \<^verbatim>\<open>end_access\<close> whose \<^verbatim>\<open>begin_access\<close> is
  not open, or a \<^verbatim>\<open>return\<close> with an access still open.
\<close>

fun openAccesses :: "SILInstruction list \<Rightarrow> BeginAccessInst list \<Rightarrow> BeginAccessInst list option" where
  "openAccesses [] opn = Some opn"
| "openAccesses (BeginAccess b # Is) opn = openAccesses Is (opn @ [b])"
| "openAccesses (EndAccess e # Is) opn =
     (if getBeginAccess e \<in> set opn then openAccesses Is (remove1 (getBeginAccess e) opn) else None)"
| "openAccesses (ReturnInst # Is) opn = (if opn = [] then openAccesses Is opn else None)"
| "openAccesses (_ # Is) opn = openAccesses Is opn"

text \<open>
  The open accesses to a storage location: the reads and the others among the accesses in
  \<open>opn\<close> whose source resolves to it.
\<close>

definition openReads :: "AccessedStorage \<Rightarrow> BeginAccessInst list \<Rightarrow> nat" where
  "openReads s opn =
     length (filter (\<lambda>b. findAccessedStorage (getSource b) = Inr s \<and> getAccessKind b = Read) opn)"

definition openNonReads :: "AccessedStorage \<Rightarrow> BeginAccessInst list \<Rightarrow> nat" where
  "openNonReads s opn =
     length (filter (\<lambda>b. findAccessedStorage (getSource b) = Inr s \<and> getAccessKind b \<noteq> Read) opn)"

text \<open>
  The access map agrees with a list of open accesses: a location has a record exactly when
  an access to it is open, the counters of the record are the numbers of its open reads and
  of its other open accesses, and the record has a first access.
\<close>

definition tracks :: "BeginAccessInst list \<Rightarrow> StorageMap \<Rightarrow> bool" where
  "tracks opn m =
     (\<forall>s. case m s of
            None \<Rightarrow> openReads s opn = 0 \<and> openNonReads s opn = 0
          | Some i \<Rightarrow> unat (Reads i) = openReads s opn \<and> unat (NonReads i) = openNonReads s opn \<and>
                      0 < openReads s opn + openNonReads s opn \<and> FirstAccess i \<noteq> None)"

text \<open>The source of an access marker resolves to a storage location.\<close>

definition supportedSource :: "SILInstruction \<Rightarrow> bool" where
  "supportedSource I =
     (case I of
        BeginAccess b \<Rightarrow> \<not> isl (findAccessedStorage (getSource b))
      | EndAccess e \<Rightarrow> \<not> isl (findAccessedStorage (getSource (getBeginAccess e)))
      | _ \<Rightarrow> True)"

text \<open>
  A path from the entry block: blocks of the function, no block twice, the first one the
  entry block, each one a predecessor of the next. Its trace is the instructions along it.
\<close>

fun linked :: "SILBasicBlock list \<Rightarrow> bool" where
  "linked [] = True"
| "linked [b] = True"
| "linked (a # b # bs) = (blockId a \<in> set (getPredecessorBlocks b) \<and> linked (b # bs))"

definition pathFromEntry :: "SILBasicBlock list \<Rightarrow> SILBasicBlock list \<Rightarrow> bool" where
  "pathFromEntry PO p = (p \<noteq> [] \<and> hd p = hd PO \<and> set p \<subseteq> set PO \<and> distinct p \<and> linked p)"

definition pathTrace :: "SILBasicBlock list \<Rightarrow> SILInstruction list" where
  "pathTrace p = concat (map instructions p)"

text \<open>
  Well-formed access markers on a trace: ends pair with open begins, nothing is open at a
  return, every source resolves, and the trace has fewer than \<open>2^32\<close> instructions
  (so that no 32-bit counter can wrap).
\<close>

definition wellFormedMarkers :: "SILInstruction list \<Rightarrow> bool" where
  "wellFormedMarkers tr =
     (openAccesses tr [] \<noteq> None \<and> list_all supportedSource tr \<and> length tr < 4294967296)"

text \<open>
  What the walk needs of the reverse post-order: each block after the first has a
  predecessor among the blocks before it.
\<close>

fun reversePostOrdered :: "nat list \<Rightarrow> SILBasicBlock list \<Rightarrow> bool" where
  "reversePostOrdered seen [] = True"
| "reversePostOrdered seen (b # bs) =
     (list_ex (\<lambda>k. k \<in> set seen) (getPredecessorBlocks b) \<and>
      reversePostOrdered (blockId b # seen) bs)"

text \<open>
  A function with its reverse post-order \<open>PO\<close>: the order starts at the entry block,
  names no block twice, and the access markers are well formed along every path.
\<close>

definition wellFormedFunction :: "SILFunction \<Rightarrow> SILBasicBlock list \<Rightarrow> bool" where
  "wellFormedFunction Fn PO =
     (blocks Fn \<noteq> [] \<and> PO \<noteq> [] \<and> blockId (hd PO) = blockId (hd (blocks Fn)) \<and>
      distinct (map blockId PO) \<and>
      reversePostOrdered [blockId (hd PO)] (tl PO) \<and>
      (\<forall>p. pathFromEntry PO p \<longrightarrow> wellFormedMarkers (pathTrace p)))"

text \<open>
  The state of the walk after the blocks \<open>visited\<close>: exactly these have an out state,
  and each out state agrees with the open accesses at the end of a path to its block.
\<close>

definition walkInvariant :: "SILBasicBlock list \<Rightarrow> SILBasicBlock list \<Rightarrow> BlockOutAccessesMap \<Rightarrow> bool" where
  "walkInvariant PO visited B =
     ((\<forall>k. (\<exists>m. B k = Some (Some m)) \<longleftrightarrow> k \<in> blockId ` set visited) \<and>
      (\<forall>k m. B k = Some (Some m) \<longrightarrow>
         (\<exists>p opn. pathFromEntry PO p \<and> set p \<subseteq> set visited \<and> blockId (last p) = k \<and>
                  openAccesses (pathTrace p) [] = Some opn \<and> tracks opn m)))"

text \<open>The invariant of a record: it has a first access iff one of its counters is positive.\<close>

definition firstAccessInvariant :: "AccessInfo \<Rightarrow> bool" where
  "firstAccessInvariant info =
     ((FirstAccess info \<noteq> None) = (0 < unat (Reads info) + unat (NonReads info)))"

text \<open>
  The parts of an access that the Fix-It looks at: when the location of the access is an
  \<open>InOutExpr\<close> around a \<open>SubscriptExpr\<close>, the \<open>InOutExpr\<close>, and the base, the index and
  the declaration of the subscript.
\<close>

fun inoutSubscript :: "BeginAccessInst \<Rightarrow> (Expr \<times> Expr \<times> Expr \<times> ValueDecl option) option" where
  "inoutSubscript (BeginAccessInst _ _ _
       (SILLocation (Some (ExprNode (InOutExpr n (SubscriptExpr m B I D r') r))) _ _)) =
     Some (InOutExpr n (SubscriptExpr m B I D r') r, B, I, D)"
| "inoutSubscript _ = None"

text \<open>
  The first recorded call whose location is a call expression with the two given
  expressions as its first and second argument.
\<close>

fun recordedSwapCall :: "Expr \<Rightarrow> Expr \<Rightarrow> ApplyInst list \<Rightarrow> Expr option" where
  "recordedSwapCall io1 io2 [] = None"
| "recordedSwapCall io1 io2 (AI # AIs) =
     (case getAsCallExpr (applyLoc AI) of
        Some (CallExpr n f (TupleExpr t (Arg1 # Arg2 # rest) tr) c r) \<Rightarrow>
          if Arg1 = io1 \<and> Arg2 = io2 then Some (CallExpr n f (TupleExpr t (Arg1 # Arg2 # rest) tr) c r)
          else recordedSwapCall io1 io2 AIs
      | _ \<Rightarrow> recordedSwapCall io1 io2 AIs)"

text \<open>
  The subscript is declared in \<^verbatim>\<open>MutableCollection\<close> (or an extension of it), or
  satisfies a requirement of it.
\<close>

definition onMutableCollection :: "ASTContext \<Rightarrow> ValueDecl \<Rightarrow> bool" where
  "onMutableCollection Ctx D =
     (case getAsProtocolOrProtocolExtensionContext D of
        Some P \<Rightarrow> Some P = getMutableCollectionDecl Ctx
      | None \<Rightarrow> getMutableCollectionDecl Ctx \<noteq> None \<and>
                getMutableCollectionDecl Ctx \<in> set (getSatisfiedProtocolRequirements D))"

fun isParenExpr :: "Expr \<Rightarrow> bool" where
  "isParenExpr (ParenExpr _ _ _) = True"
| "isParenExpr _ = False"

text \<open>
  The preconditions of the Fix-It as the specification lists them: both accesses
  write-like, both from an \<open>inout\<close> expression around a subscript, the same subscript
  declaration, which is on the mutable collection protocol, the same text for the two
  bases, and the two expressions the first and second argument of a recorded call to
  \<^verbatim>\<open>swap\<close>.
\<close>

definition statedPreconditions :: "ASTContext \<Rightarrow> ApplyInst list \<Rightarrow> BeginAccessInst \<Rightarrow> BeginAccessInst \<Rightarrow> bool" where
  "statedPreconditions Ctx Calls A1 A2 =
     (getAccessKind A1 \<noteq> Read \<and> getAccessKind A2 \<noteq> Read \<and>
      (case (inoutSubscript A1, inoutSubscript A2) of
         (Some (io1, B1, I1, D1), Some (io2, B2, I2, D2)) \<Rightarrow>
           recordedSwapCall io1 io2 Calls \<noteq> None \<and>
           (case (D1, D2) of
              (Some d1, Some d2) \<Rightarrow> d1 = d2 \<and> onMutableCollection Ctx d1
            | _ \<Rightarrow> False) \<and>
           extractExprText B1 Ctx = extractExprText B2 Ctx
       | _ \<Rightarrow> False))"

text \<open>
  The conditions under which the source attaches the Fix-It: the stated ones with both
  accesses of kind \<open>Modify\<close>, and with both index expressions parenthesized expressions.
\<close>

definition fixItConditions :: "ASTContext \<Rightarrow> ApplyInst list \<Rightarrow> BeginAccessInst \<Rightarrow> BeginAccessInst \<Rightarrow> bool" where
  "fixItConditions Ctx Calls A1 A2 =
     (getAccessKind A1 = Modify \<and> getAccessKind A2 = Modify \<and>
      (case (inoutSubscript A1, inoutSubscript A2) of
         (Some (io1, B1, I1, D1), Some (io2, B2, I2, D2)) \<Rightarrow>
           recordedSwapCall io1 io2 Calls \<noteq> None \<and>
           (case (D1, D2) of
              (Some d1, Some d2) \<Rightarrow> d1 = d2 \<and> onMutableCollection Ctx d1
            | _ \<Rightarrow> False) \<and>
           extractExprText B1 Ctx = extractExprText B2 Ctx \<and>
           isParenExpr I1 \<and> isParenExpr I2
       | _ \<Rightarrow> False))"

text \<open>
  The replacement: the range of the whole call, and the text
  \<open><base>.swapAt(<index1>, <index2>)\<close>.
\<close>

definition swapAtReplacement :: "ASTContext \<Rightarrow> ApplyInst list \<Rightarrow> BeginAccessInst \<Rightarrow> BeginAccessInst \<Rightarrow> SourceRange \<times> string" where
  "swapAtReplacement Ctx Calls A1 A2 =
     (case (inoutSubscript A1, inoutSubscript A2) of
        (Some (io1, B1, ParenExpr _ i1 _, D1), Some (io2, B2, ParenExpr _ i2 _, D2)) \<Rightarrow>
          (case recordedSwapCall io1 io2 Calls of
             Some CE \<Rightarrow>
               (exprSourceRange CE,
                extractExprText B1 Ctx @ ''.swapAt('' @ extractExprText i1 Ctx @ '', '' @
                extractExprText i2 Ctx @ '')'')
           | None \<Rightarrow> ((0, 0), []))
      | _ \<Rightarrow> ((0, 0), []))"

section \<open>Example inputs\<close>

definition declG :: ValueDecl where
  "declG = \<lparr>declId = 1, declKind = VarDeclKind, getDescriptiveKind = ''var'',
             getBaseName = ''g'', getAsProtocolOrProtocolExtensionContext = None,
             getSatisfiedProtocolRequirements = []\<rparr>"

definition globalG :: SILGlobalVariable where
  "globalG = \<lparr>globalId = 1, getDecl = Some declG\<rparr>"

definition globalH :: SILGlobalVariable where
  "globalH = \<lparr>globalId = 2, getDecl = None\<rparr>"

definition addrG :: SILValue where
  "addrG = GlobalAddrInst 10 globalG"

definition readG1 :: BeginAccessInst where
  "readG1 = BeginAccessInst 11 Read addrG (SILLocation None 20 (20, 21))"

definition readG2 :: BeginAccessInst where
  "readG2 = BeginAccessInst 12 Read addrG (SILLocation None 30 (30, 31))"

definition writeG1 :: BeginAccessInst where
  "writeG1 = BeginAccessInst 13 Modify addrG (SILLocation None 40 (40, 41))"

definition writeG2 :: BeginAccessInst where
  "writeG2 = BeginAccessInst 14 Modify addrG (SILLocation None 50 (50, 51))"

definition plainCtx :: ASTContext where
  "plainCtx = \<lparr>isSwiftVersion3 = False, getSwap = None, getMutableCollectionDecl = None,
                extractText = (\<lambda>r. []), getVarDecl = (\<lambda>P v. None)\<rparr>"

definition emptyLoopState :: LoopState where
  "emptyLoopState = \<lparr>Accesses = Map.empty, ConflictingAccesses = [], CallsToSwap = []\<rparr>"

text \<open>An address computed from an \<^verbatim>\<open>init_enum_data_addr\<close> of a stack slot.\<close>

definition enumPayloadField :: SILValue where
  "enumPayloadField =
     StructElementAddrInst 33 (IndexAddrInst 32 (InitEnumDataAddrInst 31 (AllocStackInst 30))
       (OtherValue 34))"

text \<open>
  A function that begins two reads of \<open>g\<close> in its entry block and branches; one
  successor ends both and returns, the other ends one of them.
\<close>

definition branchingFn :: SILFunction where
  "branchingFn =
     \<lparr>blocks =
        [\<lparr>blockId = 0, getPredecessorBlocks = [],
          instructions = [BeginAccess readG1, BeginAccess readG2, OtherInst 16]\<rparr>,
         \<lparr>blockId = 1, getPredecessorBlocks = [0],
          instructions = [EndAccess (EndAccessInst 17 readG2), EndAccess (EndAccessInst 18 readG1),
                          ReturnInst]\<rparr>,
         \<lparr>blockId = 2, getPredecessorBlocks = [0],
          instructions = [EndAccess (EndAccessInst 19 readG2), OtherInst 20]\<rparr>],
      getASTContext = plainCtx\<rparr>"

text \<open>A function that returns with a read of \<open>g\<close> still open.\<close>

definition unbalancedFn :: SILFunction where
  "unbalancedFn =
     \<lparr>blocks = [\<lparr>blockId = 0, getPredecessorBlocks = [],
                  instructions = [BeginAccess readG1, ReturnInst]\<rparr>],
      getASTContext = plainCtx\<rparr>"

text \<open>A function that reads \<open>g\<close> and, with the read still open, modifies \<open>g\<close>.\<close>

definition readThenWriteFn :: SILFunction where
  "readThenWriteFn =
     \<lparr>blocks = [\<lparr>blockId = 0, getPredecessorBlocks = [],
                  instructions = [BeginAccess readG1, BeginAccess writeG1,
                                  EndAccess (EndAccessInst 15 writeG1),
                                  EndAccess (EndAccessInst 16 readG1), ReturnInst]\<rparr>],
      getASTContext = plainCtx\<rparr>"

text \<open>A function whose first instruction ends an access that was never begun.\<close>

definition endOnlyFn :: SILFunction where
  "endOnlyFn =
     \<lparr>blocks = [\<lparr>blockId = 0, getPredecessorBlocks = [],
                  instructions = [EndAccess (EndAccessInst 15 readG1), ReturnInst]\<rparr>],
      getASTContext = plainCtx\<rparr>"

text \<open>
  The call \<open>swap(&c[i], &c[j])\<close> on a local variable \<open>c\<close>: declarations, the
  expressions with their character ranges in the source text, the recorded call and the
  two accesses, whose address operand is left open.
\<close>

definition sourceCtx :: "string \<Rightarrow> ASTContext" where
  "sourceCtx txt =
     \<lparr>isSwiftVersion3 = False,
      getSwap = Some \<lparr>declId = 2, declKind = FuncDeclKind, getDescriptiveKind = ''global function'',
                      getBaseName = ''swap'', getAsProtocolOrProtocolExtensionContext = None,
                      getSatisfiedProtocolRequirements = []\<rparr>,
      getMutableCollectionDecl = Some (ProtocolDecl 1),
      extractText = (\<lambda>(a, b). take (b - a) (drop a txt)),
      getVarDecl = (\<lambda>P v. None)\<rparr>"

definition swapDecl :: ValueDecl where
  "swapDecl = \<lparr>declId = 2, declKind = FuncDeclKind, getDescriptiveKind = ''global function'',
                getBaseName = ''swap'', getAsProtocolOrProtocolExtensionContext = None,
                getSatisfiedProtocolRequirements = []\<rparr>"

definition subscriptDecl :: ValueDecl where
  "subscriptDecl = \<lparr>declId = 5, declKind = SubscriptDeclKind, getDescriptiveKind = ''subscript'',
                     getBaseName = ''subscript'', getAsProtocolOrProtocolExtensionContext = None,
                     getSatisfiedProtocolRequirements = [Some (ProtocolDecl 7), Some (ProtocolDecl 1)]\<rparr>"

definition declC :: ValueDecl where
  "declC = \<lparr>declId = 3, declKind = VarDeclKind, getDescriptiveKind = ''var'',
             getBaseName = ''c'', getAsProtocolOrProtocolExtensionContext = None,
             getSatisfiedProtocolRequirements = []\<rparr>"

definition swapSource :: string where
  "swapSource = ''swap(&c[i], &c[j])''"

definition inout1 :: Expr where
  "inout1 = InOutExpr 64 (SubscriptExpr 63 (DeclRefExpr 60 declC (6, 7))
              (ParenExpr 61 (OtherExpr 62 (8, 9)) (7, 10)) (Some subscriptDecl) (6, 10)) (5, 10)"

definition inout2 :: Expr where
  "inout2 = InOutExpr 69 (SubscriptExpr 68 (DeclRefExpr 65 declC (13, 14))
              (ParenExpr 66 (OtherExpr 67 (15, 16)) (14, 17)) (Some subscriptDecl) (13, 17)) (12, 17)"

definition swapApply :: "Expr \<Rightarrow> Expr \<Rightarrow> SourceRange \<Rightarrow> ApplyInst" where
  "swapApply arg1 arg2 r =
     \<lparr>applyId = 44,
      getReferencedFunction =
        Some \<lparr>hasLocation = True, getLocation = SILLocation (Some (DeclNode swapDecl)) 0 (0, 0)\<rparr>,
      applyLoc = SILLocation
        (Some (ExprNode (CallExpr 70 (DeclRefExpr 71 swapDecl (0, 4))
           (TupleExpr 72 [arg1, arg2] (4, snd r)) (Some swapDecl) r))) 0 r\<rparr>"

definition swapAccess1 :: "SILValue \<Rightarrow> BeginAccessInst" where
  "swapAccess1 src = BeginAccessInst 42 Modify src (SILLocation (Some (ExprNode inout1)) 5 (5, 10))"

definition swapAccess2 :: "SILValue \<Rightarrow> BeginAccessInst" where
  "swapAccess2 src = BeginAccessInst 43 Modify src (SILLocation (Some (ExprNode inout2)) 12 (12, 17))"

text \<open>The address of the local variable \<open>c\<close>, held in a box.\<close>

definition addrC :: SILValue where
  "addrC = ProjectBoxInst 41 (AllocBoxInst 40 (SILLocation (Some (DeclNode declC)) 0 (0, 0)))"

text \<open>The address of a global \<open>c\<close> as its addressor returns it.\<close>

definition addressorC :: SILValue where
  "addressorC = PointerToAddressInst 46 (OtherValue 45)"

definition swapFn :: SILFunction where
  "swapFn =
     \<lparr>blocks = [\<lparr>blockId = 0, getPredecessorBlocks = [],
                  instructions = [BeginAccess (swapAccess1 addrC), BeginAccess (swapAccess2 addrC),
                                  Apply (swapApply inout1 inout2 (0, 18)),
                                  EndAccess (EndAccessInst 47 (swapAccess2 addrC)),
                                  EndAccess (EndAccessInst 48 (swapAccess1 addrC)), ReturnInst]\<rparr>],
      getASTContext = sourceCtx swapSource\<rparr>"

text \<open>
  The call \<open>swap(&m[i, 0], &m[j, 0])\<close>, on a subscript with two arguments: the index of each
  subscript is a tuple expression.
\<close>

definition pairSource :: string where
  "pairSource = ''swap(&m[i, 0], &m[j, 0])''"

definition pairInout1 :: Expr where
  "pairInout1 = InOutExpr 85 (SubscriptExpr 84 (DeclRefExpr 80 declC (6, 7))
       (TupleExpr 81 [OtherExpr 82 (8, 9), OtherExpr 83 (11, 12)] (7, 13))
       (Some subscriptDecl) (6, 13)) (5, 13)"

definition pairInout2 :: Expr where
  "pairInout2 = InOutExpr 91 (SubscriptExpr 90 (DeclRefExpr 86 declC (16, 17))
       (TupleExpr 87 [OtherExpr 88 (18, 19), OtherExpr 89 (21, 22)] (17, 23))
       (Some subscriptDecl) (16, 23)) (15, 23)"

definition pairAccess1 :: BeginAccessInst where
  "pairAccess1 = BeginAccessInst 92 Modify addrC (SILLocation (Some (ExprNode pairInout1)) 5 (5, 13))"

definition pairAccess2 :: BeginAccessInst where
  "pairAccess2 = BeginAccessInst 93 Modify addrC (SILLocation (Some (ExprNode pairInout2)) 15 (15, 23))"

text \<open>A function whose entry block begins an access to that address.\<close>

definition enumPayloadFn :: SILFunction where
  "enumPayloadFn =
     \<lparr>blocks = [\<lparr>blockId = 0, getPredecessorBlocks = [],
                  instructions =
                    [BeginAccess (BeginAccessInst 35 Modify enumPayloadField (SILLocation None 0 (0, 0))),
                     ReturnInst]\<rparr>],
      getASTContext = plainCtx\<rparr>"

text \<open>
  A function that reads \<open>g\<close>, begins to modify it, ends the read and reads \<open>g\<close> again while
  the modification is open; every access is ended before the return.
\<close>

definition staleFirstAccessFn :: SILFunction where
  "staleFirstAccessFn =
     \<lparr>blocks = [\<lparr>blockId = 0, getPredecessorBlocks = [],
                  instructions = [BeginAccess readG1, BeginAccess writeG1,
                                  EndAccess (EndAccessInst 15 readG1), BeginAccess readG2,
                                  EndAccess (EndAccessInst 16 readG2),
                                  EndAccess (EndAccessInst 17 writeG1), ReturnInst]\<rparr>],
      getASTContext = plainCtx\<rparr>"

text \<open>
  A function that reads \<open>g\<close> twice, ends the first read, and modifies \<open>g\<close> while the second
  read is open.
\<close>

definition endedNoteFn :: SILFunction where
  "endedNoteFn =
     \<lparr>blocks = [\<lparr>blockId = 0, getPredecessorBlocks = [],
                  instructions = [BeginAccess readG1, BeginAccess readG2,
                                  EndAccess (EndAccessInst 15 readG1), BeginAccess writeG1,
                                  EndAccess (EndAccessInst 16 writeG1),
                                  EndAccess (EndAccessInst 17 readG2), ReturnInst]\<rparr>],
      getASTContext = plainCtx\<rparr>"

section \<open>Properties\<close>

lemmas example_defs =
  declG_def globalG_def globalH_def addrG_def readG1_def readG2_def writeG1_def writeG2_def
  plainCtx_def emptyLoopState_def enumPayloadField_def

lemmas step_defs =
  visitInstruction_def beginAccess_def endAccess_def conflictsWithAccess_def
  alreadyHadConflict_def hasAccessesInProgress_def emptyAccessInfo_def Let_def

subsection \<open>The conflict test\<close>

lemma visitInstruction_reads:
  assumes "readOnlyMarker I" and "noNonReads (Accesses st)"
    and "visitInstruction Ctx I st = Inr st'"
  shows "ConflictingAccesses st' = ConflictingAccesses st \<and> noNonReads (Accesses st')"
proof (cases I)
  case (BeginAccess b)
  then show ?thesis
    using assms
    by (auto simp: visitInstruction_def readOnlyMarker_def noNonReads_def
        conflictsWithAccess_def beginAccess_def emptyAccessInfo_def Let_def
        split: sum.splits option.splits if_splits)
next
  case (EndAccess e)
  then show ?thesis
    using assms
    by (auto simp: visitInstruction_def readOnlyMarker_def noNonReads_def endAccess_def Let_def
        split: sum.splits option.splits if_splits)
qed (use assms in \<open>auto simp: visitInstruction_def split: if_splits\<close>)

lemma visitInstructions_reads:
  "list_all readOnlyMarker Is \<Longrightarrow> noNonReads (Accesses st) \<Longrightarrow>
   visitInstructions Ctx Is st = Inr st' \<Longrightarrow>
   ConflictingAccesses st' = ConflictingAccesses st \<and> noNonReads (Accesses st')"
proof (induction Is arbitrary: st)
  case Nil
  then show ?case by simp
next
  case (Cons I Is)
  then show ?case
    using visitInstruction_reads [of I st Ctx]
    by (auto split: sum.splits)
qed

text \<open>
  Claim C1. The conflict test on a record, for an access of kind \<open>K\<close>: a read conflicts
  exactly when the count of non-reads is positive, any other kind exactly when the count
  of non-reads or the count of reads is positive. The walk applies the test to the record
  as it is before the new access is counted, so a run of instructions whose access markers
  are all reads, started where no location has a non-read in progress, records no
  conflict.
\<close>

theorem conflictsWithAccess_iff:
  "(conflictsWithAccess info K \<longleftrightarrow>
      (if K = Read then 0 < unat (NonReads info)
       else 0 < unat (NonReads info) \<or> 0 < unat (Reads info))) \<and>
   (list_all readOnlyMarker Is \<and> noNonReads (Accesses st) \<and>
      visitInstructions Ctx Is st = Inr st' \<longrightarrow>
    ConflictingAccesses st' = ConflictingAccesses st)"
  using visitInstructions_reads [of Is st Ctx st']
  by (simp add: conflictsWithAccess_def word_less_nat_alt)

theorem conflictsWithAccess_iff_witness:
  "list_all readOnlyMarker
     [BeginAccess readG1, BeginAccess readG2, EndAccess (EndAccessInst 15 readG1)] \<and>
   noNonReads (Accesses emptyLoopState) \<and>
   visitInstructions plainCtx
     [BeginAccess readG1, BeginAccess readG2, EndAccess (EndAccessInst 15 readG1)]
     emptyLoopState =
   Inr \<lparr>Accesses = [GlobalVar globalG \<mapsto> \<lparr>Reads = 1, NonReads = 0, FirstAccess = Some readG1\<rparr>],
        ConflictingAccesses = [], CallsToSwap = []\<rparr> \<and>
   ConflictingAccesses \<lparr>Accesses = [GlobalVar globalG \<mapsto> \<lparr>Reads = 1, NonReads = 0, FirstAccess = Some readG1\<rparr>],
        ConflictingAccesses = [], CallsToSwap = []\<rparr> = ConflictingAccesses emptyLoopState \<and>
   (conflictsWithAccess \<lparr>Reads = 1, NonReads = 0, FirstAccess = Some readG1\<rparr> Modify \<longleftrightarrow> True)"
proof -
  let ?Is = "[BeginAccess readG1, BeginAccess readG2, EndAccess (EndAccessInst 15 readG1)]"
  let ?info = "\<lparr>Reads = 1, NonReads = 0, FirstAccess = Some readG1\<rparr>"
  let ?st' = "\<lparr>Accesses = [GlobalVar globalG \<mapsto> ?info],
        ConflictingAccesses = [], CallsToSwap = []\<rparr>"
  have run: "visitInstructions plainCtx ?Is emptyLoopState = Inr ?st'"
    by (simp add: step_defs example_defs)
  have markers: "list_all readOnlyMarker ?Is"
    by (simp add: readOnlyMarker_def example_defs)
  have start: "noNonReads (Accesses emptyLoopState)"
    by (simp add: noNonReads_def emptyLoopState_def)
  note inst = conflictsWithAccess_iff [of ?info Modify ?Is emptyLoopState plainCtx ?st']
  have a: "ConflictingAccesses ?st' = ConflictingAccesses emptyLoopState"
    using inst [THEN conjunct2] run markers start by blast
  have b: "conflictsWithAccess ?info Modify \<longleftrightarrow> True"
    using inst [THEN conjunct1] by simp
  show ?thesis
    using run markers start a b by blast
qed

subsection \<open>Equality of storage identities\<close>

lemma isEqual_eq: "isEqual l r \<longleftrightarrow> l = r"
  by (cases l; cases r) (auto split: ObjectProjection.splits)

text \<open>
  Claim C3. \<^verbatim>\<open>isEqual\<close> never merges two identities: it is false for two locations
  of different kinds, for two \<open>Value\<close> locations of distinct values and for two
  \<open>GlobalVar\<close> locations of distinct globals; two locations that compare equal are the
  same identity, that is the same kind with the same value, global, or object and
  projection.
\<close>

theorem isEqual_no_false_merge:
  "(getKind l \<noteq> getKind r \<longrightarrow> \<not> isEqual l r) \<and>
   (a \<noteq> b \<longrightarrow> \<not> isEqual (Value a) (Value b)) \<and>
   (g \<noteq> h \<longrightarrow> \<not> isEqual (GlobalVar g) (GlobalVar h)) \<and>
   (isEqual l r \<longrightarrow> l = r) \<and>
   isEqual l l"
  by (simp add: isEqual_eq del: isEqual.simps) auto

theorem isEqual_no_false_merge_witness:
  "getKind (Value addrG) \<noteq> getKind (GlobalVar globalG) \<and>
   \<not> isEqual (Value addrG) (GlobalVar globalG) \<and>
   AllocStackInst 1 \<noteq> AllocStackInst 2 \<and>
   \<not> isEqual (Value (AllocStackInst 1)) (Value (AllocStackInst 2)) \<and>
   globalG \<noteq> globalH \<and> \<not> isEqual (GlobalVar globalG) (GlobalVar globalH) \<and>
   isEqual (GlobalVar globalG) (GlobalVar globalG)"
  using isEqual_no_false_merge
    [of "Value addrG" "GlobalVar globalG" "AllocStackInst 1" "AllocStackInst 2" globalG globalH]
    isEqual_no_false_merge
    [of "GlobalVar globalG" "GlobalVar globalG" "AllocStackInst 1" "AllocStackInst 2" globalG globalH]
  by (simp add: example_defs)

subsection \<open>Unsupported address producers\<close>

lemma findAccessedStorage_fault:
  "list_ex unsupportedProducer (producerChain v) \<longleftrightarrow>
   findAccessedStorage v = Inl (Unreachable ''Unexpected access source.'')"
  by (induction v rule: findAccessedStorage.induct) (simp_all add: unsupportedProducer_def)

lemma findPredecessorState_Some_start:
  "\<exists>m. findPredecessorState B Preds (Some m0) = Some m"
  by (induction Preds) (auto split: option.splits)

lemma checkStaticExclusivity_unsupported:
  assumes "blocks Fn = E # rest" and "instructions E = BeginAccess BAI # Is"
    and "list_ex unsupportedProducer (producerChain (getSource BAI))"
  shows "checkStaticExclusivity Fn (E # PO) = ([], Some (Unreachable ''Unexpected access source.''))"
proof -
  obtain m where m: "findPredecessorState ([blockId E \<mapsto> Some Map.empty])
      (getPredecessorBlocks E) (Some Map.empty) = Some m"
    using findPredecessorState_Some_start by blast
  have "visitInstructions (getASTContext Fn) (instructions E)
      \<lparr>Accesses = m, ConflictingAccesses = [], CallsToSwap = []\<rparr> =
      Inl (Unreachable ''Unexpected access source.'')"
    using assms(2,3) by (simp add: findAccessedStorage_fault visitInstruction_def)
  then show ?thesis
    using assms(1) m by (simp add: checkStaticExclusivity_def Let_def)
qed

text \<open>
  Claim C7. When the chain of producers behind an address holds a producer that is neither
  looked through nor accepted as a base, \<^verbatim>\<open>findAccessedStorage\<close> stops at
  \<^verbatim>\<open>llvm_unreachable\<close> and returns no storage; a \<^verbatim>\<open>begin_access\<close> or
  \<^verbatim>\<open>end_access\<close> on such an address stops the walk there, and a pass that meets
  one in its entry block ends with that fault and no diagnostic.
\<close>

theorem findAccessedStorage_unsupported:
  assumes "list_ex unsupportedProducer (producerChain (getSource BAI))"
  shows "findAccessedStorage (getSource BAI) = Inl (Unreachable ''Unexpected access source.'') \<and>
         (\<forall>S. findAccessedStorage (getSource BAI) \<noteq> Inr S) \<and>
         visitInstruction Ctx (BeginAccess BAI) st = Inl (Unreachable ''Unexpected access source.'') \<and>
         visitInstruction Ctx (EndAccess (EndAccessInst n BAI)) st =
           Inl (Unreachable ''Unexpected access source.'') \<and>
         (blocks Fn = E # rest \<and> instructions E = BeginAccess BAI # Is \<longrightarrow>
            checkStaticExclusivity Fn (E # PO) =
              ([], Some (Unreachable ''Unexpected access source.'')))"
  using assms checkStaticExclusivity_unsupported[of Fn E rest BAI Is PO]
  by (simp add: findAccessedStorage_fault visitInstruction_def)

theorem findAccessedStorage_unsupported_witness:
  "list_ex unsupportedProducer
     (producerChain (getSource (BeginAccessInst 35 Modify enumPayloadField (SILLocation None 0 (0, 0))))) \<and>
   findAccessedStorage enumPayloadField = Inl (Unreachable ''Unexpected access source.'') \<and>
   visitInstruction plainCtx
     (BeginAccess (BeginAccessInst 35 Modify enumPayloadField (SILLocation None 0 (0, 0))))
     emptyLoopState = Inl (Unreachable ''Unexpected access source.'') \<and>
   checkStaticExclusivity enumPayloadFn (blocks enumPayloadFn) =
     ([], Some (Unreachable ''Unexpected access source.''))"
proof -
  let ?BAI = "BeginAccessInst 35 Modify enumPayloadField (SILLocation None 0 (0, 0))"
  let ?E = "\<lparr>blockId = 0, getPredecessorBlocks = [], instructions = [BeginAccess ?BAI, ReturnInst]\<rparr>"
  have chain: "list_ex unsupportedProducer (producerChain (getSource ?BAI))"
    by (simp add: enumPayloadField_def unsupportedProducer_def)
  have src: "getSource ?BAI = enumPayloadField"
    by simp
  have fn: "blocks enumPayloadFn = ?E # [] \<and> instructions ?E = BeginAccess ?BAI # [ReturnInst]"
    by (simp add: enumPayloadFn_def)
  note inst = findAccessedStorage_unsupported
    [OF chain, of plainCtx emptyLoopState 0 enumPayloadFn ?E "[]" "[ReturnInst]" "[]"]
  have chk: "checkStaticExclusivity enumPayloadFn (blocks enumPayloadFn) =
     ([], Some (Unreachable ''Unexpected access source.''))"
    using inst [THEN conjunct2, THEN conjunct2, THEN conjunct2, THEN conjunct2, THEN mp, OF fn] fn
    by simp
  show ?thesis
    using chain inst [THEN conjunct1] inst [THEN conjunct2, THEN conjunct2, THEN conjunct1] chk
    unfolding src by blast
qed

subsection \<open>The access map counts the open accesses\<close>

lemma filter_remove1_length:
  "b \<in> set xs \<Longrightarrow> length (filter P (remove1 b xs)) = length (filter P xs) - (if P b then 1 else 0)"
  by (simp add: filter_remove1 length_remove1 remove1_idem)

lemma unat_succ32: "unat (x :: 32 word) < 4294967295 \<Longrightarrow> unat (x + 1) = unat x + 1"
  by (simp add: unat_word_ariths)

lemma unat_pred32: "0 < unat (x :: 32 word) \<Longrightarrow> unat (x - 1) = unat x - 1"
  by (metis unat_minus_one unat_gt_0)

lemma beginAccess_counts:
  assumes "FirstAccess Info = None \<longleftrightarrow> Reads Info = 0 \<and> NonReads Info = 0"
    and "unat (Reads Info) < 4294967295" and "unat (NonReads Info) < 4294967295"
  shows "\<exists>Info'. beginAccess Info b = Inr Info' \<and>
           unat (Reads Info') = unat (Reads Info) + (if getAccessKind b = Read then 1 else 0) \<and>
           unat (NonReads Info') = unat (NonReads Info) + (if getAccessKind b = Read then 0 else 1) \<and>
           FirstAccess Info' = (if FirstAccess Info = None then Some b else FirstAccess Info)"
  using assms by (auto simp: beginAccess_def Let_def unat_succ32)

lemma openReads_le: "openReads s opn \<le> length opn"
  by (simp add: openReads_def)

lemma openNonReads_le: "openNonReads s opn \<le> length opn"
  by (simp add: openNonReads_def)

lemma tracks_begin:
  assumes tr: "tracks opn (Accesses st)"
    and len: "length opn < 4294967295"
    and src: "findAccessedStorage (getSource b) = Inr s"
  shows "\<exists>st'. visitInstruction Ctx (BeginAccess b) st = Inr st' \<and> tracks (opn @ [b]) (Accesses st')
     \<and> CallsToSwap st' = CallsToSwap st"
proof -
  define Info where "Info = (case Accesses st s of None \<Rightarrow> emptyAccessInfo | Some i \<Rightarrow> i)"
  have cnt: "unat (Reads Info) = openReads s opn" "unat (NonReads Info) = openNonReads s opn"
    using tr[unfolded tracks_def, rule_format, of s]
    by (auto simp: Info_def emptyAccessInfo_def split: option.splits)
  have first: "FirstAccess Info = None \<longleftrightarrow> Reads Info = 0 \<and> NonReads Info = 0"
    using tr[unfolded tracks_def, rule_format, of s]
    by (auto simp: Info_def emptyAccessInfo_def unat_eq_0[symmetric] simp del: unat_eq_0 split: option.splits)
  have rb: "unat (Reads Info) < 4294967295" "unat (NonReads Info) < 4294967295"
    using cnt len openReads_le[of s opn] openNonReads_le[of s opn] by auto
  obtain Info' where b: "beginAccess Info b = Inr Info'"
     and r': "unat (Reads Info') = unat (Reads Info) + (if getAccessKind b = Read then 1 else 0)"
     and n': "unat (NonReads Info') = unat (NonReads Info) + (if getAccessKind b = Read then 0 else 1)"
     and f0: "FirstAccess Info' = (if FirstAccess Info = None then Some b else FirstAccess Info)"
    using beginAccess_counts[OF first rb] by blast
  have c': "unat (Reads Info') = openReads s (opn @ [b])" "unat (NonReads Info') = openNonReads s (opn @ [b])"
    using r' n' cnt src by (auto simp: openReads_def openNonReads_def)
  have f': "FirstAccess Info' \<noteq> None"
    using f0 by (auto split: if_splits)
  have pos: "0 < openReads s (opn @ [b]) + openNonReads s (opn @ [b])"
    using src by (cases "getAccessKind b = Read") (auto simp: openReads_def openNonReads_def)
  have other: "s' \<noteq> s \<Longrightarrow> openReads s' (opn @ [b]) = openReads s' opn \<and> openNonReads s' (opn @ [b]) = openNonReads s' opn" for s'
    using src by (auto simp: openReads_def openNonReads_def)
  have newtr: "tracks (opn @ [b]) ((Accesses st)(s \<mapsto> Info'))"
    unfolding tracks_def
  proof
    fix s'
    show "case ((Accesses st)(s \<mapsto> Info')) s' of
            None \<Rightarrow> openReads s' (opn @ [b]) = 0 \<and> openNonReads s' (opn @ [b]) = 0
          | Some i \<Rightarrow> unat (Reads i) = openReads s' (opn @ [b]) \<and> unat (NonReads i) = openNonReads s' (opn @ [b]) \<and>
                      0 < openReads s' (opn @ [b]) + openNonReads s' (opn @ [b]) \<and> FirstAccess i \<noteq> None"
    proof (cases "s' = s")
      case True then show ?thesis using c' f' pos by simp
    next
      case False
      then show ?thesis using other[OF False] tr[unfolded tracks_def, rule_format, of s']
        by (simp split: option.splits)
    qed
  qed
  have noassert: "conflictsWithAccess Info k \<Longrightarrow> FirstAccess Info \<noteq> None" for k
    using first by (auto simp: conflictsWithAccess_def split: if_splits)
  show ?thesis
    using b newtr noassert[of "getAccessKind b"] src
    by (auto simp: visitInstruction_def Info_def[symmetric] Let_def)
qed

lemma endAccess_Reads:
  "getAccessKind (getBeginAccess e) = Read \<longrightarrow> 0 < unat (Reads Info) \<Longrightarrow>
   unat (Reads (endAccess Info e)) =
     unat (Reads Info) - (if getAccessKind (getBeginAccess e) = Read then 1 else 0)"
  by (auto simp: endAccess_def Let_def unat_pred32)

lemma endAccess_NonReads:
  "getAccessKind (getBeginAccess e) \<noteq> Read \<longrightarrow> 0 < unat (NonReads Info) \<Longrightarrow>
   unat (NonReads (endAccess Info e)) =
     unat (NonReads Info) - (if getAccessKind (getBeginAccess e) = Read then 0 else 1)"
  by (auto simp: endAccess_def Let_def unat_pred32)

lemma endAccess_FirstAccess:
  "FirstAccess (endAccess Info e) =
     (if hasAccessesInProgress (endAccess Info e) then FirstAccess Info else None)"
  by (auto simp: endAccess_def Let_def hasAccessesInProgress_def word_gt_0)

lemma hasAccessesInProgress_unat:
  "hasAccessesInProgress i \<longleftrightarrow> 0 < unat (Reads i) + unat (NonReads i)"
  by (auto simp: hasAccessesInProgress_def word_less_nat_alt)

lemma tracks_end:
  assumes tr: "tracks opn (Accesses st)"
    and mem: "getBeginAccess e \<in> set opn"
    and src: "findAccessedStorage (getSource (getBeginAccess e)) = Inr s"
  shows "\<exists>st'. visitInstruction Ctx (EndAccess e) st = Inr st' \<and>
           tracks (remove1 (getBeginAccess e) opn) (Accesses st') \<and>
           CallsToSwap st' = CallsToSwap st"
proof -
  let ?b = "getBeginAccess e"
  let ?opn' = "remove1 ?b opn"
  have rd: "openReads s' ?opn' = openReads s' opn -
      (if findAccessedStorage (getSource ?b) = Inr s' \<and> getAccessKind ?b = Read then 1 else 0)" for s'
    unfolding openReads_def using filter_remove1_length[OF mem] by simp
  have nr: "openNonReads s' ?opn' = openNonReads s' opn -
      (if findAccessedStorage (getSource ?b) = Inr s' \<and> getAccessKind ?b \<noteq> Read then 1 else 0)" for s'
    unfolding openNonReads_def using filter_remove1_length[OF mem] by simp
  have posb: "getAccessKind ?b = Read \<longrightarrow> 0 < openReads s opn"
             "getAccessKind ?b \<noteq> Read \<longrightarrow> 0 < openNonReads s opn"
    using mem src by (auto simp: openReads_def openNonReads_def filter_empty_conv)
  then obtain Info where Info: "Accesses st s = Some Info"
    using tr[unfolded tracks_def, rule_format, of s] by (cases "Accesses st s") auto
  have cnt: "unat (Reads Info) = openReads s opn" "unat (NonReads Info) = openNonReads s opn"
       "FirstAccess Info \<noteq> None"
    using tr[unfolded tracks_def, rule_format, of s] Info by auto
  let ?I' = "endAccess Info e"
  have c': "unat (Reads ?I') = openReads s ?opn'" "unat (NonReads ?I') = openNonReads s ?opn'"
    using endAccess_Reads[of e Info] endAccess_NonReads[of e Info] posb cnt rd[of s] nr[of s] src by auto
  have f': "hasAccessesInProgress ?I' \<Longrightarrow> FirstAccess ?I' \<noteq> None"
    using endAccess_FirstAccess[of Info e] cnt by auto
  have other: "s' \<noteq> s \<Longrightarrow> openReads s' ?opn' = openReads s' opn \<and> openNonReads s' ?opn' = openNonReads s' opn" for s'
    using rd[of s'] nr[of s'] src by auto
  show ?thesis
  proof (cases "hasAccessesInProgress ?I'")
    case True
    have "tracks ?opn' ((Accesses st)(s \<mapsto> ?I'))"
      unfolding tracks_def
    proof
      fix s'
      show "case ((Accesses st)(s \<mapsto> ?I')) s' of
            None \<Rightarrow> openReads s' ?opn' = 0 \<and> openNonReads s' ?opn' = 0
          | Some i \<Rightarrow> unat (Reads i) = openReads s' ?opn' \<and> unat (NonReads i) = openNonReads s' ?opn' \<and>
                      0 < openReads s' ?opn' + openNonReads s' ?opn' \<and> FirstAccess i \<noteq> None"
      proof (cases "s' = s")
        case True
        then show ?thesis using c' f'[OF \<open>hasAccessesInProgress ?I'\<close>] \<open>hasAccessesInProgress ?I'\<close>
          by (simp add: hasAccessesInProgress_unat)
      next
        case False
        then show ?thesis using other[OF False] tr[unfolded tracks_def, rule_format, of s']
          by (simp split: option.splits)
      qed
    qed
    then show ?thesis using True Info src
      by (simp add: visitInstruction_def Let_def)
  next
    case False
    have "tracks ?opn' ((Accesses st)(s := None))"
      unfolding tracks_def
    proof
      fix s'
      show "case ((Accesses st)(s := None)) s' of
            None \<Rightarrow> openReads s' ?opn' = 0 \<and> openNonReads s' ?opn' = 0
          | Some i \<Rightarrow> unat (Reads i) = openReads s' ?opn' \<and> unat (NonReads i) = openNonReads s' ?opn' \<and>
                      0 < openReads s' ?opn' + openNonReads s' ?opn' \<and> FirstAccess i \<noteq> None"
      proof (cases "s' = s")
        case True
        then show ?thesis using c' False
          by (simp add: hasAccessesInProgress_unat)
      next
        case neq: False
        then show ?thesis using other[OF neq] tr[unfolded tracks_def, rule_format, of s']
          by (simp split: option.splits)
      qed
    qed
    then show ?thesis using False Info src
      by (simp add: visitInstruction_def Let_def)
  qed
qed

lemma tracks_nil: "tracks [] m \<longleftrightarrow> dom m = {}"
  by (auto simp: tracks_def openReads_def openNonReads_def split: option.splits)

lemma tracks_step:
  assumes tr: "tracks opn (Accesses st)"
    and sup: "supportedSource I"
    and len: "length opn < 4294967295"
    and ab: "openAccesses [I] opn = Some opn'"
  shows "\<exists>st'. visitInstruction Ctx I st = Inr st' \<and> tracks opn' (Accesses st')"
proof (cases I)
  case (BeginAccess b)
  then obtain s where "findAccessedStorage (getSource b) = Inr s"
    using sup by (cases "findAccessedStorage (getSource b)") (auto simp: supportedSource_def)
  then show ?thesis
    using tracks_begin[OF tr len, of b s Ctx] ab BeginAccess by auto
next
  case (EndAccess e)
  then obtain s where "findAccessedStorage (getSource (getBeginAccess e)) = Inr s"
    using sup by (cases "findAccessedStorage (getSource (getBeginAccess e))") (auto simp: supportedSource_def)
  then show ?thesis
    using tracks_end[OF tr, of e s Ctx] ab EndAccess by (auto split: if_splits)
next
  case (Apply a)
  then show ?thesis using tr ab by (auto simp: visitInstruction_def)
next
  case ReturnInst
  then show ?thesis using tr ab by (auto simp: visitInstruction_def tracks_nil split: if_splits)
next
  case (OtherInst n)
  then show ?thesis using tr ab by (auto simp: visitInstruction_def)
qed

lemma openAccesses_Cons:
  "openAccesses (I # Is) opn = (case openAccesses [I] opn of None \<Rightarrow> None | Some o' \<Rightarrow> openAccesses Is o')"
  by (cases I) auto

lemma openAccesses_append:
  "openAccesses (Is @ Js) opn = (case openAccesses Is opn of None \<Rightarrow> None | Some o' \<Rightarrow> openAccesses Js o')"
proof (induction Is arbitrary: opn)
  case Nil
  show ?case by simp
next
  case (Cons I Is)
  show ?case
    using Cons.IH openAccesses_Cons[of I "Is @ Js" opn] openAccesses_Cons[of I Is opn]
    by (auto split: option.splits)
qed

lemma openAccesses_single_length:
  "openAccesses [I] opn = Some opn' \<Longrightarrow> length opn' \<le> Suc (length opn)"
  by (cases I) (auto split: if_splits simp: length_remove1)

lemma openAccesses_length:
  "openAccesses Is opn = Some opn' \<Longrightarrow> length opn' \<le> length opn + length Is"
proof (induction Is arbitrary: opn)
  case Nil
  then show ?case by simp
next
  case (Cons I Is)
  from Cons.prems obtain o1 where o1: "openAccesses [I] opn = Some o1" "openAccesses Is o1 = Some opn'"
    using openAccesses_Cons[of I Is opn] by (auto split: option.splits)
  show ?case
    using Cons.IH[OF o1(2)] openAccesses_single_length[OF o1(1)] by simp
qed

lemma tracks_run:
  assumes "tracks opn (Accesses st)"
    and "list_all supportedSource Is"
    and "length opn + length Is < 4294967296"
    and "openAccesses Is opn = Some opn'"
  shows "\<exists>st'. visitInstructions Ctx Is st = Inr st' \<and> tracks opn' (Accesses st')"
  using assms
proof (induction Is arbitrary: opn st)
  case Nil
  then show ?case by simp
next
  case (Cons I Is)
  from Cons.prems(4) obtain o1 where o1: "openAccesses [I] opn = Some o1" "openAccesses Is o1 = Some opn'"
    using openAccesses_Cons[of I Is opn] by (auto split: option.splits)
  have len: "length opn < 4294967295" using Cons.prems(3) by simp
  obtain st1 where st1: "visitInstruction Ctx I st = Inr st1" "tracks o1 (Accesses st1)"
    using tracks_step[OF Cons.prems(1) _ len o1(1), of Ctx] Cons.prems(2) by auto
  have len1: "length o1 + length Is < 4294967296"
    using openAccesses_single_length[OF o1(1)] Cons.prems(3) by simp
  show ?case
    using Cons.IH[OF st1(2) _ len1 o1(2)] Cons.prems(2) st1(1) by auto
qed

subsection \<open>The walk on a function with well-formed access markers\<close>

lemma findPredecessorState_None:
  "findPredecessorState B Preds None = Some m \<Longrightarrow> \<exists>k \<in> set Preds. B k = Some (Some m)"
  by (induction Preds) (auto split: option.splits)

lemma findPredecessorState_found:
  "\<exists>k \<in> set Preds. \<exists>m. B k = Some (Some m) \<Longrightarrow> \<exists>m. findPredecessorState B Preds S = Some m"
  by (induction Preds) (auto split: option.splits)

lemma linked_snoc:
  "linked p \<Longrightarrow> p \<noteq> [] \<Longrightarrow> blockId (last p) \<in> set (getPredecessorBlocks b) \<Longrightarrow> linked (p @ [b])"
  by (induction p rule: linked.induct) auto

lemma pathTrace_snoc: "pathTrace (p @ [b]) = pathTrace p @ instructions b"
  by (simp add: pathTrace_def)

lemma reversePostOrdered_seen:
  "reversePostOrdered seen (b # bs) \<Longrightarrow> \<exists>k \<in> set (getPredecessorBlocks b). k \<in> set seen"
  by (auto simp: list_ex_iff)

lemma walk_block:
  assumes inv: "walkInvariant PO visited B"
    and vis: "set visited \<subseteq> set PO" "BB \<in> set PO" "blockId BB \<notin> blockId ` set visited"
    and pred: "\<exists>k \<in> set (getPredecessorBlocks BB). k \<in> blockId ` set visited"
    and wf: "\<forall>p. pathFromEntry PO p \<longrightarrow> wellFormedMarkers (pathTrace p)"
  shows "\<exists>Acc st. findPredecessorState (B(blockId BB \<mapsto> (case B (blockId BB) of None \<Rightarrow> None | Some s \<Rightarrow> s)))
             (getPredecessorBlocks BB) (case B (blockId BB) of None \<Rightarrow> None | Some s \<Rightarrow> s) = Some Acc \<and>
           visitInstructions Ctx (instructions BB) \<lparr>Accesses = Acc, ConflictingAccesses = cs, CallsToSwap = sw\<rparr> = Inr st \<and>
           walkInvariant PO (visited @ [BB]) (B(blockId BB \<mapsto> Some (Accesses st)))"
proof -
  let ?k = "blockId BB"
  have none: "(case B ?k of None \<Rightarrow> None | Some s \<Rightarrow> s) = None"
    using inv vis(3) unfolding walkInvariant_def by (auto split: option.splits)
  let ?B0 = "B(?k \<mapsto> None)"
  have B0: "?B0 k = Some (Some m) \<longleftrightarrow> B k = Some (Some m)" for k m
    using inv vis(3) unfolding walkInvariant_def by auto
  obtain kp mp where kp: "kp \<in> set (getPredecessorBlocks BB)" "B kp = Some (Some mp)"
    using pred inv unfolding walkInvariant_def by blast
  then obtain Acc where Acc: "findPredecessorState ?B0 (getPredecessorBlocks BB) None = Some Acc"
    using findPredecessorState_found[of "getPredecessorBlocks BB" ?B0 None] B0 by blast
  then obtain k where k: "k \<in> set (getPredecessorBlocks BB)" "B k = Some (Some Acc)"
    using findPredecessorState_None[OF Acc] B0 by blast
  then obtain p opn where p: "pathFromEntry PO p" "set p \<subseteq> set visited" "blockId (last p) = k"
      "openAccesses (pathTrace p) [] = Some opn" "tracks opn Acc"
    using inv unfolding walkInvariant_def by blast
  let ?p' = "p @ [BB]"
  have notin: "BB \<notin> set p" using p(2) vis(3) by auto
  have path': "pathFromEntry PO ?p'"
    using p(1) notin vis(2) k(1) p(3) linked_snoc[of p BB]
    by (auto simp: pathFromEntry_def)
  then have wfm: "wellFormedMarkers (pathTrace p @ instructions BB)"
    using wf pathTrace_snoc[of p BB] by auto
  then obtain opn' where opn': "openAccesses (instructions BB) opn = Some opn'"
      "openAccesses (pathTrace ?p') [] = Some opn'"
    using p(4) openAccesses_append[of "pathTrace p" "instructions BB" "[]"] pathTrace_snoc[of p BB]
    by (auto simp: wellFormedMarkers_def)
  have len: "length opn + length (instructions BB) < 4294967296"
    using openAccesses_length[OF p(4)] wfm by (simp add: wellFormedMarkers_def)
  have sup: "list_all supportedSource (instructions BB)"
    using wfm by (simp add: wellFormedMarkers_def)
  obtain st where st: "visitInstructions Ctx (instructions BB)
       \<lparr>Accesses = Acc, ConflictingAccesses = cs, CallsToSwap = sw\<rparr> = Inr st" "tracks opn' (Accesses st)"
    using tracks_run[of opn "\<lparr>Accesses = Acc, ConflictingAccesses = cs, CallsToSwap = sw\<rparr>" "instructions BB" opn' Ctx]
      p(5) sup len opn'(1) by auto
  have inv': "walkInvariant PO (visited @ [BB]) (B(?k \<mapsto> Some (Accesses st)))"
    unfolding walkInvariant_def
  proof (intro conjI allI impI)
    fix k'
    show "(\<exists>m. (B(?k \<mapsto> Some (Accesses st))) k' = Some (Some m)) \<longleftrightarrow> k' \<in> blockId ` set (visited @ [BB])"
      using inv unfolding walkInvariant_def by auto
  next
    fix k' m
    assume a: "(B(?k \<mapsto> Some (Accesses st))) k' = Some (Some m)"
    show "\<exists>p opn. pathFromEntry PO p \<and> set p \<subseteq> set (visited @ [BB]) \<and> blockId (last p) = k' \<and>
                  openAccesses (pathTrace p) [] = Some opn \<and> tracks opn m"
    proof (cases "k' = ?k")
      case True
      then have "m = Accesses st" using a by simp
      then show ?thesis
        using path' p(2) opn'(2) st(2) True
        by (intro exI[of _ ?p'] exI[of _ opn']) auto
    next
      case False
      then have "B k' = Some (Some m)" using a by simp
      then obtain q oq where "pathFromEntry PO q" "set q \<subseteq> set visited" "blockId (last q) = k'"
         "openAccesses (pathTrace q) [] = Some oq" "tracks oq m"
        using inv unfolding walkInvariant_def by blast
      then show ?thesis by (intro exI[of _ q] exI[of _ oq]) auto
    qed
  qed
  show ?thesis
    using none Acc st(1) inv' by auto
qed

lemma reversePostOrdered_cong:
  "reversePostOrdered seen bs \<Longrightarrow> set seen = set seen' \<Longrightarrow> reversePostOrdered seen' bs"
proof (induction bs arbitrary: seen seen')
  case Nil
  show ?case by simp
next
  case (Cons b bs)
  have "reversePostOrdered (blockId b # seen') bs"
    using Cons.IH[of "blockId b # seen" "blockId b # seen'"] Cons.prems by simp
  then show ?case using Cons.prems by (simp add: list_ex_iff)
qed

lemma walk_rest:
  assumes "walkInvariant PO visited B"
    and "PO = visited @ rest"
    and "distinct (map blockId PO)"
    and "reversePostOrdered seen rest"
    and "set seen = blockId ` set visited"
    and "\<forall>p. pathFromEntry PO p \<longrightarrow> wellFormedMarkers (pathTrace p)"
  shows "\<exists>B' cs' sw'. visitBlocks Ctx rest B cs sw = Inr (B', cs', sw') \<and> walkInvariant PO PO B'"
  using assms
proof (induction rest arbitrary: visited B cs sw seen)
  case Nil
  then show ?case by simp
next
  case (Cons BB rest)
  have vis: "set visited \<subseteq> set PO" "BB \<in> set PO" "blockId BB \<notin> blockId ` set visited"
    using Cons.prems(2,3) by auto
  have pred: "\<exists>k \<in> set (getPredecessorBlocks BB). k \<in> blockId ` set visited"
    using reversePostOrdered_seen[OF Cons.prems(4)] Cons.prems(5) by simp
  obtain Acc st where step:
    "findPredecessorState (B(blockId BB \<mapsto> (case B (blockId BB) of None \<Rightarrow> None | Some s \<Rightarrow> s)))
        (getPredecessorBlocks BB) (case B (blockId BB) of None \<Rightarrow> None | Some s \<Rightarrow> s) = Some Acc"
    "visitInstructions Ctx (instructions BB)
        \<lparr>Accesses = Acc, ConflictingAccesses = cs, CallsToSwap = sw\<rparr> = Inr st"
    "walkInvariant PO (visited @ [BB]) (B(blockId BB \<mapsto> Some (Accesses st)))"
    using walk_block[OF Cons.prems(1) vis pred Cons.prems(6), of Ctx cs sw] by blast
  have rpo: "reversePostOrdered (blockId BB # seen) rest"
    using Cons.prems(4) by simp
  have po: "PO = (visited @ [BB]) @ rest"
    using Cons.prems(2) by simp
  have seen: "set (blockId BB # seen) = blockId ` set (visited @ [BB])"
    using Cons.prems(5) by auto
  have "\<exists>B' cs' sw'. visitBlocks Ctx rest (B(blockId BB \<mapsto> Some (Accesses st)))
           (ConflictingAccesses st) (CallsToSwap st) = Inr (B', cs', sw') \<and> walkInvariant PO PO B'"
    by (rule Cons.IH[OF step(3) po Cons.prems(3) rpo seen Cons.prems(6)])
  then show ?case
    using step(1,2) by (simp add: Let_def)
qed

lemma findPredecessorState_start:
  "\<forall>k m. B k = Some (Some m) \<longrightarrow> m = m0 \<Longrightarrow> findPredecessorState B Preds (Some m0) = Some m0"
  by (induction Preds) (auto split: option.splits)

lemma walk_entry:
  assumes wf: "\<forall>p. pathFromEntry (E # rest) p \<longrightarrow> wellFormedMarkers (pathTrace p)"
  shows "\<exists>st. findPredecessorState ([blockId E \<mapsto> Some Map.empty])
              (getPredecessorBlocks E) (Some Map.empty) = Some Map.empty \<and>
           visitInstructions Ctx (instructions E)
              \<lparr>Accesses = Map.empty, ConflictingAccesses = [], CallsToSwap = []\<rparr> = Inr st \<and>
           walkInvariant (E # rest) [E] ([blockId E \<mapsto> Some (Accesses st)])"
proof -
  have pe: "pathFromEntry (E # rest) [E]"
    by (simp add: pathFromEntry_def)
  then have wfm: "wellFormedMarkers (instructions E)"
    using wf by (auto simp: pathTrace_def)
  then obtain opn where opn: "openAccesses (instructions E) [] = Some opn"
    by (auto simp: wellFormedMarkers_def)
  have t0: "tracks [] (Accesses \<lparr>Accesses = Map.empty, ConflictingAccesses = [], CallsToSwap = []\<rparr>)"
    by (simp add: tracks_nil)
  obtain st where st: "visitInstructions Ctx (instructions E)
       \<lparr>Accesses = Map.empty, ConflictingAccesses = [], CallsToSwap = []\<rparr> = Inr st" "tracks opn (Accesses st)"
    using tracks_run[OF t0 _ _ opn, of Ctx] wfm by (auto simp: wellFormedMarkers_def)
  have inv: "walkInvariant (E # rest) [E] ([blockId E \<mapsto> Some (Accesses st)])"
    unfolding walkInvariant_def
    using pe opn st(2)
    by (auto simp: pathTrace_def intro!: exI[of _ "[E]"] exI[of _ opn])
  show ?thesis
    using findPredecessorState_start[of "[blockId E \<mapsto> Some Map.empty]" Map.empty "getPredecessorBlocks E"]
      st(1) inv by auto
qed

lemma visitBlocks_wellFormed:
  assumes "wellFormedFunction Fn PO"
  shows "\<exists>B cs sw. visitBlocks Ctx PO [blockId (hd (blocks Fn)) \<mapsto> Some Map.empty] [] [] = Inr (B, cs, sw) \<and>
           walkInvariant PO PO B"
proof -
  obtain E rest where PO: "PO = E # rest"
    using assms by (cases PO) (auto simp: wellFormedFunction_def)
  have ent: "blockId (hd (blocks Fn)) = blockId E"
    using assms PO by (simp add: wellFormedFunction_def)
  have wf: "\<forall>p. pathFromEntry (E # rest) p \<longrightarrow> wellFormedMarkers (pathTrace p)"
    using assms PO by (simp add: wellFormedFunction_def)
  obtain st where st:
    "findPredecessorState ([blockId E \<mapsto> Some Map.empty])
              (getPredecessorBlocks E) (Some Map.empty) = Some Map.empty"
    "visitInstructions Ctx (instructions E)
              \<lparr>Accesses = Map.empty, ConflictingAccesses = [], CallsToSwap = []\<rparr> = Inr st"
    "walkInvariant (E # rest) [E] ([blockId E \<mapsto> Some (Accesses st)])"
    using walk_entry[OF wf, of Ctx] by blast
  have po: "E # rest = [E] @ rest"
    by simp
  have dist: "distinct (map blockId (E # rest))"
    using assms unfolding PO wellFormedFunction_def by blast
  have rpo: "reversePostOrdered [blockId E] rest"
    using assms unfolding PO wellFormedFunction_def by auto
  have seen: "set [blockId E] = blockId ` set [E]"
    by simp
  have "\<exists>B' cs' sw'. visitBlocks Ctx rest ([blockId E \<mapsto> Some (Accesses st)])
           (ConflictingAccesses st) (CallsToSwap st) = Inr (B', cs', sw') \<and> walkInvariant (E # rest) (E # rest) B'"
    by (rule walk_rest[OF st(3) po dist rpo seen wf])
  then show ?thesis
    using st(1,2) unfolding PO ent by (simp add: Let_def)
qed

lemma openAccesses_return_last:
  "openAccesses (T @ [ReturnInst]) opn = Some opn' \<Longrightarrow> opn' = []"
  using openAccesses_append[of T "[ReturnInst]" opn]
  by (auto split: option.splits if_splits)

lemma walkInvariant_return:
  assumes inv: "walkInvariant PO PO B"
    and dist: "distinct (map blockId PO)"
    and b: "b \<in> set PO"
  shows "\<exists>m. B (blockId b) = Some (Some m) \<and>
           (instructions b \<noteq> [] \<and> last (instructions b) = ReturnInst \<longrightarrow> dom m = {}) \<and>
           (\<forall>s i. m s = Some i \<longrightarrow> FirstAccess i \<noteq> None \<and> 0 < unat (Reads i) + unat (NonReads i))"
proof -
  obtain m where m: "B (blockId b) = Some (Some m)"
    using inv b unfolding walkInvariant_def by blast
  then obtain p opn where p: "pathFromEntry PO p" "set p \<subseteq> set PO" "blockId (last p) = blockId b"
      "openAccesses (pathTrace p) [] = Some opn" "tracks opn m"
    using inv unfolding walkInvariant_def by blast
  have pne: "p \<noteq> []" using p(1) by (simp add: pathFromEntry_def)
  then have "last p \<in> set PO" using p(2) last_in_set by blast
  then have lp: "last p = b"
    using p(3) b dist by (metis distinct_map inj_on_def)
  have "p = butlast p @ [b]"
    using pne lp by (metis append_butlast_last_id)
  then have tr: "pathTrace p = pathTrace (butlast p) @ instructions b"
    using pathTrace_snoc[of "butlast p" b] by simp
  have ret: "dom m = {}" if "instructions b \<noteq> []" "last (instructions b) = ReturnInst"
  proof -
    have "instructions b = butlast (instructions b) @ [ReturnInst]"
      using that by (metis append_butlast_last_id)
    then have "pathTrace p = (pathTrace (butlast p) @ butlast (instructions b)) @ [ReturnInst]"
      using tr by simp
    then have "opn = []"
      using p(4) openAccesses_return_last by metis
    then show ?thesis using p(5) tracks_nil by simp
  qed
  have recs: "FirstAccess i \<noteq> None \<and> 0 < unat (Reads i) + unat (NonReads i)" if "m s = Some i" for s i
    using p(5)[unfolded tracks_def, rule_format, of s] that by simp
  show ?thesis using m ret recs by blast
qed

lemma branchingFn_paths:
  assumes "pathFromEntry (blocks branchingFn) p"
  shows "p = [blocks branchingFn ! 0] \<or> p = [blocks branchingFn ! 0, blocks branchingFn ! 1] \<or>
         p = [blocks branchingFn ! 0, blocks branchingFn ! 2]"
proof -
  obtain q where p: "p = (blocks branchingFn ! 0) # q"
    using assms by (cases p) (auto simp: pathFromEntry_def branchingFn_def)
  show ?thesis
  proof (cases q)
    case Nil
    then show ?thesis using p by simp
  next
    case (Cons x r)
    then have x: "x = blocks branchingFn ! 1 \<or> x = blocks branchingFn ! 2"
      using assms p by (auto simp: pathFromEntry_def branchingFn_def)
    show ?thesis
    proof (cases r)
      case Nil
      then show ?thesis using p Cons x by auto
    next
      case (Cons y r')
      then have False
        using assms p \<open>q = x # r\<close> x by (auto simp: pathFromEntry_def branchingFn_def)
      then show ?thesis ..
    qed
  qed
qed

lemma branchingFn_wellFormed: "wellFormedFunction branchingFn (blocks branchingFn)"
proof -
  have paths: "wellFormedMarkers (pathTrace p)" if "pathFromEntry (blocks branchingFn) p" for p
    using branchingFn_paths[OF that]
    by (auto simp: wellFormedMarkers_def pathTrace_def branchingFn_def supportedSource_def example_defs)
  have rest: "blocks branchingFn \<noteq> [] \<and> blockId (hd (blocks branchingFn)) = blockId (hd (blocks branchingFn)) \<and>
      distinct (map blockId (blocks branchingFn)) \<and>
      reversePostOrdered [blockId (hd (blocks branchingFn))] (tl (blocks branchingFn))"
    by (simp add: branchingFn_def)
  show ?thesis
    unfolding wellFormedFunction_def using paths rest by blast
qed

lemma checkStaticExclusivity_walk:
  "blocks Fn \<noteq> [] \<Longrightarrow>
   checkStaticExclusivity Fn PO =
     (case visitBlocks (getASTContext Fn) PO [blockId (hd (blocks Fn)) \<mapsto> Some Map.empty] [] [] of
        Inl e \<Rightarrow> ([], Some e)
      | Inr (B, cs, sw) \<Rightarrow> emitDiagnostics (getASTContext Fn) sw cs)"
  by (cases "blocks Fn") (simp_all add: checkStaticExclusivity_def)

text \<open>
  Claim C4. On a function whose access markers are well formed along every path from the
  entry block (every \<^verbatim>\<open>end_access\<close> ends an access that is open, and no access
  is open at a \<^verbatim>\<open>return\<close>), the walk over the blocks in reverse post-order
  completes: no assertion fires, each block has an out state, and the out state of a block
  that ends in a \<^verbatim>\<open>return\<close> is the empty map. A non-empty map at a
  \<^verbatim>\<open>return\<close> fails the assertion, and a walk that stops at a fault hands
  over no diagnostic.
\<close>

theorem balanced_state_at_return:
  "(wellFormedFunction Fn PO \<longrightarrow>
      (\<exists>B cs sw.
         visitBlocks (getASTContext Fn) PO [blockId (hd (blocks Fn)) \<mapsto> Some Map.empty] [] [] =
           Inr (B, cs, sw) \<and>
         (\<forall>b \<in> set PO. \<exists>m. B (blockId b) = Some (Some m) \<and>
            (instructions b \<noteq> [] \<and> last (instructions b) = ReturnInst \<longrightarrow> dom m = {})) \<and>
         checkStaticExclusivity Fn PO = emitDiagnostics (getASTContext Fn) sw cs)) \<and>
   (dom (Accesses st) \<noteq> {} \<longrightarrow>
      visitInstruction Ctx ReturnInst st =
        Inl (AssertionFailed ''Entries were not properly removed?!'')) \<and>
   (blocks Fn \<noteq> [] \<and>
    visitBlocks (getASTContext Fn) PO [blockId (hd (blocks Fn)) \<mapsto> Some Map.empty] [] [] = Inl e \<longrightarrow>
      checkStaticExclusivity Fn PO = ([], Some e))"
proof (intro conjI impI)
  assume wf: "wellFormedFunction Fn PO"
  then obtain B cs sw where walk:
    "visitBlocks (getASTContext Fn) PO [blockId (hd (blocks Fn)) \<mapsto> Some Map.empty] [] [] = Inr (B, cs, sw)"
    "walkInvariant PO PO B"
    using visitBlocks_wellFormed[of Fn PO "getASTContext Fn"] by blast
  have dist: "distinct (map blockId PO)" and ne: "blocks Fn \<noteq> []"
    using wf by (auto simp: wellFormedFunction_def)
  have outs: "\<forall>b \<in> set PO. \<exists>m. B (blockId b) = Some (Some m) \<and>
            (instructions b \<noteq> [] \<and> last (instructions b) = ReturnInst \<longrightarrow> dom m = {})"
    using walkInvariant_return[OF walk(2) dist] by blast
  have "checkStaticExclusivity Fn PO = emitDiagnostics (getASTContext Fn) sw cs"
    using checkStaticExclusivity_walk[OF ne, of PO] walk(1) by simp
  then show "\<exists>B cs sw.
         visitBlocks (getASTContext Fn) PO [blockId (hd (blocks Fn)) \<mapsto> Some Map.empty] [] [] =
           Inr (B, cs, sw) \<and>
         (\<forall>b \<in> set PO. \<exists>m. B (blockId b) = Some (Some m) \<and>
            (instructions b \<noteq> [] \<and> last (instructions b) = ReturnInst \<longrightarrow> dom m = {})) \<and>
         checkStaticExclusivity Fn PO = emitDiagnostics (getASTContext Fn) sw cs"
    using walk(1) outs by blast
next
  assume "dom (Accesses st) \<noteq> {}"
  then show "visitInstruction Ctx ReturnInst st =
        Inl (AssertionFailed ''Entries were not properly removed?!'')"
    by (simp add: visitInstruction_def)
next
  assume "blocks Fn \<noteq> [] \<and>
    visitBlocks (getASTContext Fn) PO [blockId (hd (blocks Fn)) \<mapsto> Some Map.empty] [] [] = Inl e"
  then show "checkStaticExclusivity Fn PO = ([], Some e)"
    using checkStaticExclusivity_walk[of Fn PO] by simp
qed

theorem balanced_state_at_return_witness:
  "wellFormedFunction branchingFn (blocks branchingFn) \<and>
   (\<exists>B cs sw.
      visitBlocks plainCtx (blocks branchingFn) [0 \<mapsto> Some Map.empty] [] [] = Inr (B, cs, sw) \<and>
      (\<exists>m. B 1 = Some (Some m) \<and> dom m = {})) \<and>
   dom [GlobalVar globalG \<mapsto> \<lparr>Reads = 1, NonReads = 0, FirstAccess = Some readG1\<rparr>] \<noteq> {} \<and>
   visitInstruction plainCtx ReturnInst
     \<lparr>Accesses = [GlobalVar globalG \<mapsto> \<lparr>Reads = 1, NonReads = 0, FirstAccess = Some readG1\<rparr>],
      ConflictingAccesses = [], CallsToSwap = []\<rparr> =
     Inl (AssertionFailed ''Entries were not properly removed?!'') \<and>
   checkStaticExclusivity unbalancedFn (blocks unbalancedFn) =
     ([], Some (AssertionFailed ''Entries were not properly removed?!''))"
proof -
  let ?st = "\<lparr>Accesses = [GlobalVar globalG \<mapsto> \<lparr>Reads = 1, NonReads = 0, FirstAccess = Some readG1\<rparr>],
      ConflictingAccesses = [], CallsToSwap = []\<rparr>"
  let ?e = "AssertionFailed ''Entries were not properly removed?!''"
  note good = balanced_state_at_return [of branchingFn "blocks branchingFn" ?st plainCtx ?e]
  note bad = balanced_state_at_return [of unbalancedFn "blocks unbalancedFn" ?st plainCtx ?e]
  have wf: "wellFormedFunction branchingFn (blocks branchingFn)"
    by (rule branchingFn_wellFormed)
  have ctx: "getASTContext branchingFn = plainCtx" "blockId (hd (blocks branchingFn)) = 0"
    by (simp_all add: branchingFn_def)
  have b1: "\<lparr>blockId = 1, getPredecessorBlocks = [0],
          instructions = [EndAccess (EndAccessInst 17 readG2), EndAccess (EndAccessInst 18 readG1),
                          ReturnInst]\<rparr> \<in> set (blocks branchingFn)"
    by (simp add: branchingFn_def)
  have walk: "\<exists>B cs sw.
      visitBlocks plainCtx (blocks branchingFn) [0 \<mapsto> Some Map.empty] [] [] = Inr (B, cs, sw) \<and>
      (\<exists>m. B 1 = Some (Some m) \<and> dom m = {})"
    using good [THEN conjunct1, THEN mp, OF wf] b1 unfolding ctx by fastforce
  have dom: "dom (Accesses ?st) \<noteq> {}"
    by simp
  have ret: "visitInstruction plainCtx ReturnInst ?st = Inl ?e"
    using good [THEN conjunct2, THEN conjunct1, THEN mp, OF dom] .
  have fails: "blocks unbalancedFn \<noteq> [] \<and>
      visitBlocks (getASTContext unbalancedFn) (blocks unbalancedFn)
        [blockId (hd (blocks unbalancedFn)) \<mapsto> Some Map.empty] [] [] = Inl ?e"
    by (simp add: unbalancedFn_def step_defs example_defs)
  have chk: "checkStaticExclusivity unbalancedFn (blocks unbalancedFn) = ([], Some ?e)"
    using bad [THEN conjunct2, THEN conjunct2, THEN mp, OF fails] .
  show ?thesis
    using wf walk dom ret chk by simp
qed

subsection \<open>The first access of a record\<close>

lemma firstAccessInvariant_None:
  "firstAccessInvariant info \<Longrightarrow> FirstAccess info = None \<longleftrightarrow> Reads info = 0 \<and> NonReads info = 0"
  by (auto simp: firstAccessInvariant_def unat_gt_0)

lemma beginAccess_invariant:
  assumes "firstAccessInvariant info"
    and "unat (Reads info) < 4294967295" and "unat (NonReads info) < 4294967295"
  shows "\<exists>info'. beginAccess info BAI = Inr info' \<and> firstAccessInvariant info' \<and>
           FirstAccess info' = (if FirstAccess info = None then Some BAI else FirstAccess info)"
proof -
  obtain info' where i: "beginAccess info BAI = Inr info'"
    "unat (Reads info') = unat (Reads info) + (if getAccessKind BAI = Read then 1 else 0)"
    "unat (NonReads info') = unat (NonReads info) + (if getAccessKind BAI = Read then 0 else 1)"
    "FirstAccess info' = (if FirstAccess info = None then Some BAI else FirstAccess info)"
    using beginAccess_counts[OF firstAccessInvariant_None[OF assms(1)] assms(2,3), of BAI] by blast
  have "firstAccessInvariant info'"
    using i(2,3,4) by (auto simp: firstAccessInvariant_def)
  then show ?thesis using i(1,4) by blast
qed

lemma endAccess_invariant:
  assumes "firstAccessInvariant info"
    and "if getAccessKind (getBeginAccess EAI) = Read then 0 < unat (Reads info)
         else 0 < unat (NonReads info)"
  shows "firstAccessInvariant (endAccess info EAI) \<and>
         (Reads (endAccess info EAI) = 0 \<and> NonReads (endAccess info EAI) = 0 \<longrightarrow>
            FirstAccess (endAccess info EAI) = None \<and> \<not> hasAccessesInProgress (endAccess info EAI))"
proof -
  have set: "FirstAccess info \<noteq> None"
    using assms by (auto simp: firstAccessInvariant_def split: if_splits)
  show ?thesis
    using set endAccess_FirstAccess[of info EAI]
    by (auto simp: firstAccessInvariant_def hasAccessesInProgress_unat)
qed

lemma endAccess_dropped:
  assumes "findAccessedStorage (getSource (getBeginAccess EAI)) = Inr s"
    and "Accesses st s = Some info" and "\<not> hasAccessesInProgress (endAccess info EAI)"
  shows "\<exists>st'. visitInstruction Ctx (EndAccess EAI) st = Inr st' \<and> Accesses st' s = None"
  using assms by (simp add: visitInstruction_def Let_def)

lemma tracks_invariant:
  "tracks opn m \<Longrightarrow> m s = Some i \<Longrightarrow> firstAccessInvariant i"
  unfolding tracks_def firstAccessInvariant_def
  by (erule allE[of _ s]) simp

lemma wellFormedMarkers_take:
  assumes "wellFormedMarkers Is"
  shows "\<exists>opn. openAccesses (take n Is) [] = Some opn \<and> list_all supportedSource (take n Is) \<and>
           length [] + length (take n Is) < 4294967296"
proof -
  have "openAccesses (take n Is @ drop n Is) [] \<noteq> None"
    using assms by (simp add: wellFormedMarkers_def)
  then obtain opn where "openAccesses (take n Is) [] = Some opn"
    using openAccesses_append[of "take n Is" "drop n Is" "[]"]
    by (cases "openAccesses (take n Is) []") auto
  moreover have "list_all supportedSource (take n Is)"
    using assms by (auto simp: wellFormedMarkers_def list_all_iff dest: in_set_takeD)
  ultimately show ?thesis
    using assms by (auto simp: wellFormedMarkers_def)
qed

lemma prefix_invariant:
  assumes "wellFormedMarkers Is"
    and "visitInstructions Ctx (take n Is) \<lparr>Accesses = Map.empty, ConflictingAccesses = cs, CallsToSwap = sw\<rparr> = Inr st"
    and "Accesses st s = Some i"
  shows "firstAccessInvariant i"
proof -
  obtain opn where o: "openAccesses (take n Is) [] = Some opn" "list_all supportedSource (take n Is)"
      "length ([] :: BeginAccessInst list) + length (take n Is) < 4294967296"
    using wellFormedMarkers_take[OF assms(1), of n] by blast
  have t0: "tracks [] (Accesses \<lparr>Accesses = Map.empty, ConflictingAccesses = cs, CallsToSwap = sw\<rparr>)"
    by (simp add: tracks_nil)
  obtain st' where "visitInstructions Ctx (take n Is)
      \<lparr>Accesses = Map.empty, ConflictingAccesses = cs, CallsToSwap = sw\<rparr> = Inr st'" "tracks opn (Accesses st')"
    using tracks_run[OF t0 o(2) o(3) o(1), of Ctx] by blast
  then show ?thesis
    using assms(2,3) tracks_invariant by auto
qed

text \<open>
  Claim C9. A record has a first access iff one of its counters is positive. This holds of
  the zero record that a \<^verbatim>\<open>begin_access\<close> inserts for a new location; it is
  kept by \<^verbatim>\<open>beginAccess\<close> (no counter at its maximum), which sets the first access
  of a record that has none and keeps it otherwise, and by \<^verbatim>\<open>endAccess\<close> of an
  access that is counted in the record, which clears the first access when both counters
  are back at zero; the walk then removes the entry from the map. It holds of every record
  in the state after any prefix of a trace with well-formed markers, and in the out state
  of every block of a function with well-formed markers.
\<close>

theorem firstAccess_invariant:
  "firstAccessInvariant emptyAccessInfo \<and>
   (firstAccessInvariant info \<and> unat (Reads info) < 4294967295 \<and> unat (NonReads info) < 4294967295 \<longrightarrow>
      (\<exists>info'. beginAccess info BAI = Inr info' \<and> firstAccessInvariant info' \<and>
         FirstAccess info' = (if FirstAccess info = None then Some BAI else FirstAccess info))) \<and>
   (firstAccessInvariant info \<and>
    (if getAccessKind (getBeginAccess EAI) = Read then 0 < unat (Reads info)
     else 0 < unat (NonReads info)) \<longrightarrow>
      firstAccessInvariant (endAccess info EAI) \<and>
      (Reads (endAccess info EAI) = 0 \<and> NonReads (endAccess info EAI) = 0 \<longrightarrow>
         FirstAccess (endAccess info EAI) = None \<and> \<not> hasAccessesInProgress (endAccess info EAI))) \<and>
   (findAccessedStorage (getSource (getBeginAccess EAI)) = Inr s \<and>
    Accesses st s = Some info \<and> \<not> hasAccessesInProgress (endAccess info EAI) \<longrightarrow>
      (\<exists>st'. visitInstruction Ctx (EndAccess EAI) st = Inr st' \<and> Accesses st' s = None)) \<and>
   (wellFormedMarkers Is \<and>
    visitInstructions Ctx (take n Is)
      \<lparr>Accesses = Map.empty, ConflictingAccesses = cs, CallsToSwap = sw\<rparr> = Inr st1 \<and>
    Accesses st1 s1 = Some i1 \<longrightarrow> firstAccessInvariant i1) \<and>
   (wellFormedFunction Fn PO \<longrightarrow>
      (\<exists>B cs' sw'.
         visitBlocks (getASTContext Fn) PO [blockId (hd (blocks Fn)) \<mapsto> Some Map.empty] [] [] =
           Inr (B, cs', sw') \<and>
         (\<forall>b \<in> set PO. \<exists>m. B (blockId b) = Some (Some m) \<and>
            (\<forall>s' i'. m s' = Some i' \<longrightarrow> firstAccessInvariant i'))))"
proof (intro conjI impI)
  show "firstAccessInvariant emptyAccessInfo"
    by (simp add: firstAccessInvariant_def emptyAccessInfo_def)
next
  assume "firstAccessInvariant info \<and> unat (Reads info) < 4294967295 \<and> unat (NonReads info) < 4294967295"
  then show "\<exists>info'. beginAccess info BAI = Inr info' \<and> firstAccessInvariant info' \<and>
         FirstAccess info' = (if FirstAccess info = None then Some BAI else FirstAccess info)"
    using beginAccess_invariant[of info BAI] by blast
next
  assume a: "firstAccessInvariant info \<and>
    (if getAccessKind (getBeginAccess EAI) = Read then 0 < unat (Reads info)
     else 0 < unat (NonReads info))"
  show "firstAccessInvariant (endAccess info EAI)"
    using endAccess_invariant[of info EAI] a by blast
  assume "Reads (endAccess info EAI) = 0 \<and> NonReads (endAccess info EAI) = 0"
  then show "FirstAccess (endAccess info EAI) = None" "\<not> hasAccessesInProgress (endAccess info EAI)"
    using endAccess_invariant[of info EAI] a by blast+
next
  assume "findAccessedStorage (getSource (getBeginAccess EAI)) = Inr s \<and>
    Accesses st s = Some info \<and> \<not> hasAccessesInProgress (endAccess info EAI)"
  then show "\<exists>st'. visitInstruction Ctx (EndAccess EAI) st = Inr st' \<and> Accesses st' s = None"
    using endAccess_dropped[of EAI s st info Ctx] by blast
next
  assume "wellFormedMarkers Is \<and>
    visitInstructions Ctx (take n Is)
      \<lparr>Accesses = Map.empty, ConflictingAccesses = cs, CallsToSwap = sw\<rparr> = Inr st1 \<and>
    Accesses st1 s1 = Some i1"
  then show "firstAccessInvariant i1"
    using prefix_invariant[of Is Ctx n cs sw st1 s1 i1] by blast
next
  assume wf: "wellFormedFunction Fn PO"
  then obtain B cs' sw' where walk:
    "visitBlocks (getASTContext Fn) PO [blockId (hd (blocks Fn)) \<mapsto> Some Map.empty] [] [] = Inr (B, cs', sw')"
    "walkInvariant PO PO B"
    using visitBlocks_wellFormed[of Fn PO "getASTContext Fn"] by blast
  have dist: "distinct (map blockId PO)"
    using wf by (auto simp: wellFormedFunction_def)
  have "\<forall>b \<in> set PO. \<exists>m. B (blockId b) = Some (Some m) \<and>
            (\<forall>s' i'. m s' = Some i' \<longrightarrow> firstAccessInvariant i')"
  proof
    fix b assume "b \<in> set PO"
    then obtain m where m: "B (blockId b) = Some (Some m)"
       "\<forall>s i. m s = Some i \<longrightarrow> FirstAccess i \<noteq> None \<and> 0 < unat (Reads i) + unat (NonReads i)"
      using walkInvariant_return[OF walk(2) dist, of b] by blast
    then show "\<exists>m. B (blockId b) = Some (Some m) \<and>
            (\<forall>s' i'. m s' = Some i' \<longrightarrow> firstAccessInvariant i')"
      by (auto simp: firstAccessInvariant_def)
  qed
  then show "\<exists>B cs' sw'.
         visitBlocks (getASTContext Fn) PO [blockId (hd (blocks Fn)) \<mapsto> Some Map.empty] [] [] =
           Inr (B, cs', sw') \<and>
         (\<forall>b \<in> set PO. \<exists>m. B (blockId b) = Some (Some m) \<and>
            (\<forall>s' i'. m s' = Some i' \<longrightarrow> firstAccessInvariant i'))"
    using walk(1) by blast
qed

theorem firstAccess_invariant_witness:
  "firstAccessInvariant \<lparr>Reads = 1, NonReads = 0, FirstAccess = Some readG1\<rparr> \<and>
   (\<exists>info'. beginAccess \<lparr>Reads = 1, NonReads = 0, FirstAccess = Some readG1\<rparr> readG2 = Inr info' \<and>
      firstAccessInvariant info' \<and> FirstAccess info' = Some readG1) \<and>
   firstAccessInvariant (endAccess \<lparr>Reads = 1, NonReads = 0, FirstAccess = Some readG1\<rparr> (EndAccessInst 15 readG1)) \<and>
   FirstAccess (endAccess \<lparr>Reads = 1, NonReads = 0, FirstAccess = Some readG1\<rparr> (EndAccessInst 15 readG1)) = None \<and>
   (\<exists>st'. visitInstruction plainCtx (EndAccess (EndAccessInst 15 readG1))
       \<lparr>Accesses = [GlobalVar globalG \<mapsto> \<lparr>Reads = 1, NonReads = 0, FirstAccess = Some readG1\<rparr>],
        ConflictingAccesses = [], CallsToSwap = []\<rparr> = Inr st' \<and>
      Accesses st' (GlobalVar globalG) = None) \<and>
   wellFormedMarkers [BeginAccess readG1, EndAccess (EndAccessInst 15 readG1)] \<and>
   wellFormedFunction branchingFn (blocks branchingFn) \<and>
   (\<exists>B cs' sw'.
      visitBlocks plainCtx (blocks branchingFn) [0 \<mapsto> Some Map.empty] [] [] = Inr (B, cs', sw') \<and>
      (\<forall>b \<in> set (blocks branchingFn). \<exists>m. B (blockId b) = Some (Some m) \<and>
         (\<forall>s' i'. m s' = Some i' \<longrightarrow> firstAccessInvariant i')))"
proof -
  let ?info = "\<lparr>Reads = 1, NonReads = 0, FirstAccess = Some readG1\<rparr>"
  let ?EAI = "EndAccessInst 15 readG1"
  let ?st = "\<lparr>Accesses = [GlobalVar globalG \<mapsto> ?info], ConflictingAccesses = [], CallsToSwap = []\<rparr>"
  let ?Is = "[BeginAccess readG1, EndAccess ?EAI]"
  note inst = firstAccess_invariant
    [of ?info readG2 ?EAI "GlobalVar globalG" ?st plainCtx ?Is 1 "[]" "[]" ?st "GlobalVar globalG" ?info
        branchingFn "blocks branchingFn"]
  have inv: "firstAccessInvariant ?info"
    by (simp add: firstAccessInvariant_def)
  have bnd: "unat (Reads ?info) < 4294967295 \<and> unat (NonReads ?info) < 4294967295"
    by simp
  have open1: "if getAccessKind (getBeginAccess ?EAI) = Read then 0 < unat (Reads ?info)
     else 0 < unat (NonReads ?info)"
    by (simp add: readG1_def)
  have c2: "\<exists>info'. beginAccess ?info readG2 = Inr info' \<and> firstAccessInvariant info' \<and>
      FirstAccess info' = Some readG1"
    using inst [THEN conjunct2, THEN conjunct1] inv bnd by simp
  have c3: "firstAccessInvariant (endAccess ?info ?EAI) \<and>
      (Reads (endAccess ?info ?EAI) = 0 \<and> NonReads (endAccess ?info ?EAI) = 0 \<longrightarrow>
         FirstAccess (endAccess ?info ?EAI) = None \<and> \<not> hasAccessesInProgress (endAccess ?info ?EAI))"
    using inst [THEN conjunct2, THEN conjunct2, THEN conjunct1] inv open1 by blast
  have zero: "Reads (endAccess ?info ?EAI) = 0 \<and> NonReads (endAccess ?info ?EAI) = 0"
    by (simp add: endAccess_def readG1_def)
  have src: "findAccessedStorage (getSource (getBeginAccess ?EAI)) = Inr (GlobalVar globalG) \<and>
      Accesses ?st (GlobalVar globalG) = Some ?info"
    by (simp add: readG1_def addrG_def)
  have c4: "\<exists>st'. visitInstruction plainCtx (EndAccess ?EAI) ?st = Inr st' \<and>
      Accesses st' (GlobalVar globalG) = None"
    using inst [THEN conjunct2, THEN conjunct2, THEN conjunct2, THEN conjunct1] src c3 zero by blast
  have wfm: "wellFormedMarkers ?Is"
    by (simp add: wellFormedMarkers_def supportedSource_def readG1_def addrG_def)
  have pre: "visitInstructions plainCtx (take 1 ?Is)
      \<lparr>Accesses = Map.empty, ConflictingAccesses = [], CallsToSwap = []\<rparr> = Inr ?st \<and>
      Accesses ?st (GlobalVar globalG) = Some ?info"
    by (simp add: step_defs readG1_def addrG_def)
  have c5: "firstAccessInvariant ?info"
    using inst [THEN conjunct2, THEN conjunct2, THEN conjunct2, THEN conjunct2, THEN conjunct1]
      wfm pre by blast
  have wf: "wellFormedFunction branchingFn (blocks branchingFn)"
    by (rule branchingFn_wellFormed)
  have ctx: "getASTContext branchingFn = plainCtx" "blockId (hd (blocks branchingFn)) = 0"
    by (simp_all add: branchingFn_def)
  have c6: "\<exists>B cs' sw'.
      visitBlocks plainCtx (blocks branchingFn) [0 \<mapsto> Some Map.empty] [] [] = Inr (B, cs', sw') \<and>
      (\<forall>b \<in> set (blocks branchingFn). \<exists>m. B (blockId b) = Some (Some m) \<and>
         (\<forall>s' i'. m s' = Some i' \<longrightarrow> firstAccessInvariant i'))"
    using inst [THEN conjunct2, THEN conjunct2, THEN conjunct2, THEN conjunct2, THEN conjunct2,
                THEN mp, OF wf]
    unfolding ctx .
  show ?thesis
    using c5 c2 c3 zero c4 wfm wf c6 by blast
qed

subsection \<open>Recording a conflict\<close>

lemma beginAccess_alreadyHadConflict:
  assumes "conflictsWithAccess Info (getAccessKind BAI)"
    and "unat (Reads Info) < 4294967295" and "unat (NonReads Info) < 4294967295"
    and "beginAccess Info BAI = Inr Info'"
  shows "alreadyHadConflict Info'"
proof -
  have r: "unat (Reads Info') = unat (Reads Info) + (if getAccessKind BAI = Read then 1 else 0)"
    and n: "unat (NonReads Info') = unat (NonReads Info) + (if getAccessKind BAI = Read then 0 else 1)"
    using assms(2,3,4) by (auto simp: beginAccess_def Let_def unat_succ32 split: if_splits)
  have "(0 < unat (NonReads Info') \<and> 0 < unat (Reads Info')) \<or> 1 < unat (NonReads Info')"
    using assms(1) r n by (auto simp: conflictsWithAccess_def word_less_nat_alt split: if_splits)
  then show ?thesis
    by (simp add: alreadyHadConflict_def word_less_nat_alt)
qed

lemma visitInstruction_BeginAccess:
  assumes "findAccessedStorage (getSource BAI) = Inr S"
    and "visitInstruction Ctx (BeginAccess BAI) st = Inr st'"
  shows "\<exists>Info'. beginAccess (case Accesses st S of None \<Rightarrow> emptyAccessInfo | Some i \<Rightarrow> i) BAI = Inr Info' \<and>
           Accesses st' = (Accesses st)(S \<mapsto> Info') \<and>
           ConflictingAccesses st' =
             (if conflictsWithAccess (case Accesses st S of None \<Rightarrow> emptyAccessInfo | Some i \<Rightarrow> i) (getAccessKind BAI) \<and>
                 \<not> alreadyHadConflict (case Accesses st S of None \<Rightarrow> emptyAccessInfo | Some i \<Rightarrow> i)
              then ConflictingAccesses st @
                     [ConflictingAccess S (the (FirstAccess (case Accesses st S of None \<Rightarrow> emptyAccessInfo | Some i \<Rightarrow> i))) BAI]
              else ConflictingAccesses st) \<and>
           (conflictsWithAccess (case Accesses st S of None \<Rightarrow> emptyAccessInfo | Some i \<Rightarrow> i) (getAccessKind BAI) \<and>
                 \<not> alreadyHadConflict (case Accesses st S of None \<Rightarrow> emptyAccessInfo | Some i \<Rightarrow> i) \<longrightarrow>
              FirstAccess (case Accesses st S of None \<Rightarrow> emptyAccessInfo | Some i \<Rightarrow> i) \<noteq> None)"
proof -
  define Info where "Info = (case Accesses st S of None \<Rightarrow> emptyAccessInfo | Some i \<Rightarrow> i)"
  show ?thesis
    using assms unfolding Info_def[symmetric]
    by (auto simp: visitInstruction_def Let_def Info_def[symmetric] split: option.splits sum.splits if_splits)
qed

text \<open>
  Claim C2, as amended. A \<^verbatim>\<open>begin_access\<close> appends a conflict (the location, the first
  access of its record, the new access) iff the record as it is before the new access is
  counted conflicts with the access and does not satisfy \<^verbatim>\<open>alreadyHadConflict\<close>. Once
  a conflicting access is counted (no counter at its maximum) the record satisfies
  \<^verbatim>\<open>alreadyHadConflict\<close>, so a \<^verbatim>\<open>begin_access\<close> that follows on the location
  appends nothing while that holds. A zero record, which is what a location has after it
  drains to empty, neither conflicts nor satisfies \<^verbatim>\<open>alreadyHadConflict\<close>.
\<close>

theorem conflict_recorded_iff:
  "(findAccessedStorage (getSource BAI) = Inr S \<and>
    visitInstruction Ctx (BeginAccess BAI) st = Inr st' \<longrightarrow>
      (let Info = (case Accesses st S of None \<Rightarrow> emptyAccessInfo | Some i \<Rightarrow> i)
       in ConflictingAccesses st' =
            (if conflictsWithAccess Info (getAccessKind BAI) \<and> \<not> alreadyHadConflict Info
             then ConflictingAccesses st @ [ConflictingAccess S (the (FirstAccess Info)) BAI]
             else ConflictingAccesses st) \<and>
          (conflictsWithAccess Info (getAccessKind BAI) \<and> \<not> alreadyHadConflict Info \<longrightarrow>
             FirstAccess Info \<noteq> None) \<and>
          (conflictsWithAccess Info (getAccessKind BAI) \<and>
           unat (Reads Info) < 4294967295 \<and> unat (NonReads Info) < 4294967295 \<longrightarrow>
             (\<exists>Info'. Accesses st' S = Some Info' \<and> alreadyHadConflict Info')))) \<and>
   \<not> conflictsWithAccess emptyAccessInfo K \<and> \<not> alreadyHadConflict emptyAccessInfo"
proof (intro conjI impI)
  assume a: "findAccessedStorage (getSource BAI) = Inr S \<and>
    visitInstruction Ctx (BeginAccess BAI) st = Inr st'"
  define Info where "Info = (case Accesses st S of None \<Rightarrow> emptyAccessInfo | Some i \<Rightarrow> i)"
  obtain Info' where i: "beginAccess Info BAI = Inr Info'" "Accesses st' = (Accesses st)(S \<mapsto> Info')"
    "ConflictingAccesses st' =
       (if conflictsWithAccess Info (getAccessKind BAI) \<and> \<not> alreadyHadConflict Info
        then ConflictingAccesses st @ [ConflictingAccess S (the (FirstAccess Info)) BAI]
        else ConflictingAccesses st)"
    "conflictsWithAccess Info (getAccessKind BAI) \<and> \<not> alreadyHadConflict Info \<longrightarrow> FirstAccess Info \<noteq> None"
    using visitInstruction_BeginAccess[of BAI S Ctx st st'] a unfolding Info_def by blast
  have "conflictsWithAccess Info (getAccessKind BAI) \<and>
           unat (Reads Info) < 4294967295 \<and> unat (NonReads Info) < 4294967295 \<longrightarrow>
             (\<exists>Info'. Accesses st' S = Some Info' \<and> alreadyHadConflict Info')"
    using beginAccess_alreadyHadConflict[of Info BAI Info'] i(1,2) by simp
  then show "let Info = (case Accesses st S of None \<Rightarrow> emptyAccessInfo | Some i \<Rightarrow> i)
       in ConflictingAccesses st' =
            (if conflictsWithAccess Info (getAccessKind BAI) \<and> \<not> alreadyHadConflict Info
             then ConflictingAccesses st @ [ConflictingAccess S (the (FirstAccess Info)) BAI]
             else ConflictingAccesses st) \<and>
          (conflictsWithAccess Info (getAccessKind BAI) \<and> \<not> alreadyHadConflict Info \<longrightarrow>
             FirstAccess Info \<noteq> None) \<and>
          (conflictsWithAccess Info (getAccessKind BAI) \<and>
           unat (Reads Info) < 4294967295 \<and> unat (NonReads Info) < 4294967295 \<longrightarrow>
             (\<exists>Info'. Accesses st' S = Some Info' \<and> alreadyHadConflict Info'))"
    using i(3,4) unfolding Info_def[symmetric] Let_def by blast
next
  show "\<not> conflictsWithAccess emptyAccessInfo K"
    by (simp add: conflictsWithAccess_def emptyAccessInfo_def)
  show "\<not> alreadyHadConflict emptyAccessInfo"
    by (simp add: alreadyHadConflict_def emptyAccessInfo_def)
qed

theorem conflict_recorded_iff_witness:
  "findAccessedStorage (getSource writeG1) = Inr (GlobalVar globalG) \<and>
   visitInstruction plainCtx (BeginAccess writeG1)
     \<lparr>Accesses = [GlobalVar globalG \<mapsto> \<lparr>Reads = 1, NonReads = 0, FirstAccess = Some readG1\<rparr>],
      ConflictingAccesses = [], CallsToSwap = []\<rparr> =
   Inr \<lparr>Accesses = [GlobalVar globalG \<mapsto> \<lparr>Reads = 1, NonReads = 1, FirstAccess = Some readG1\<rparr>],
        ConflictingAccesses = [ConflictingAccess (GlobalVar globalG) readG1 writeG1],
        CallsToSwap = []\<rparr> \<and>
   conflictsWithAccess \<lparr>Reads = 1, NonReads = 0, FirstAccess = Some readG1\<rparr> (getAccessKind writeG1) \<and>
   \<not> alreadyHadConflict \<lparr>Reads = 1, NonReads = 0, FirstAccess = Some readG1\<rparr> \<and>
   alreadyHadConflict \<lparr>Reads = 1, NonReads = 1, FirstAccess = Some readG1\<rparr>"
proof -
  let ?i0 = "\<lparr>Reads = 1, NonReads = 0, FirstAccess = Some readG1\<rparr>"
  let ?i1 = "\<lparr>Reads = 1, NonReads = 1, FirstAccess = Some readG1\<rparr>"
  let ?st = "\<lparr>Accesses = [GlobalVar globalG \<mapsto> ?i0], ConflictingAccesses = [], CallsToSwap = []\<rparr>"
  let ?st' = "\<lparr>Accesses = [GlobalVar globalG \<mapsto> ?i1],
        ConflictingAccesses = [ConflictingAccess (GlobalVar globalG) readG1 writeG1],
        CallsToSwap = []\<rparr>"
  have src: "findAccessedStorage (getSource writeG1) = Inr (GlobalVar globalG)"
    by (simp add: writeG1_def addrG_def)
  have run: "visitInstruction plainCtx (BeginAccess writeG1) ?st = Inr ?st'"
    by (simp add: step_defs example_defs)
  have c: "conflictsWithAccess ?i0 (getAccessKind writeG1)" "\<not> alreadyHadConflict ?i0"
    by (simp_all add: conflictsWithAccess_def alreadyHadConflict_def writeG1_def)
  have b: "unat (Reads ?i0) < 4294967295 \<and> unat (NonReads ?i0) < 4294967295"
    by simp
  note inst = conflict_recorded_iff [of writeG1 "GlobalVar globalG" plainCtx ?st ?st' Modify,
      THEN conjunct1, THEN mp, OF conjI [OF src run], unfolded Let_def]
  have "\<exists>Info'. Accesses ?st' (GlobalVar globalG) = Some Info' \<and> alreadyHadConflict Info'"
    using inst [THEN conjunct2, THEN conjunct2] c(1) b by simp
  then have "alreadyHadConflict ?i1"
    by simp
  then show ?thesis
    using src run c by blast
qed

text \<open>
  Claim C2, as stated, fails: \<open>g\<close> is read, written, the write ends, and \<open>g\<close> is written
  again while the read is still open. Both writes are recorded as conflicts although the
  record of \<open>g\<close> is never empty in between.
\<close>

theorem one_episode_until_drained_counterexample:
  "visitInstructions plainCtx [BeginAccess readG1, BeginAccess writeG1] emptyLoopState =
     Inr \<lparr>Accesses = [GlobalVar globalG \<mapsto> \<lparr>Reads = 1, NonReads = 1, FirstAccess = Some readG1\<rparr>],
          ConflictingAccesses = [ConflictingAccess (GlobalVar globalG) readG1 writeG1],
          CallsToSwap = []\<rparr> \<and>
   visitInstructions plainCtx
     [BeginAccess readG1, BeginAccess writeG1, EndAccess (EndAccessInst 15 writeG1)] emptyLoopState =
     Inr \<lparr>Accesses = [GlobalVar globalG \<mapsto> \<lparr>Reads = 1, NonReads = 0, FirstAccess = Some readG1\<rparr>],
          ConflictingAccesses = [ConflictingAccess (GlobalVar globalG) readG1 writeG1],
          CallsToSwap = []\<rparr> \<and>
   visitInstructions plainCtx
     [BeginAccess readG1, BeginAccess writeG1, EndAccess (EndAccessInst 15 writeG1),
      BeginAccess writeG2] emptyLoopState =
     Inr \<lparr>Accesses = [GlobalVar globalG \<mapsto> \<lparr>Reads = 1, NonReads = 1, FirstAccess = Some readG1\<rparr>],
          ConflictingAccesses = [ConflictingAccess (GlobalVar globalG) readG1 writeG1,
                                 ConflictingAccess (GlobalVar globalG) readG1 writeG2],
          CallsToSwap = []\<rparr>"
  by (simp add: step_defs example_defs)

subsection \<open>The diagnostics of a conflict\<close>

lemma diagnoseExclusivityViolation_sites:
  assumes "diagnoseExclusivityViolation S Prior New Calls Ctx = Inr ds"
  shows "\<exists>main note M N. ds = [main, note] \<and>
       ((M = Prior \<and> N = New) \<or> (M = New \<and> N = Prior \<and> getRequiredAccess Prior = SharedAccess)) \<and>
       getRequiredAccess M = ExclusiveAccess \<and>
       diagLoc main = getSourceLoc (getLoc M) \<and>
       diagHighlights main = [getSourceRange (getLoc M)] \<and>
       diagID main \<noteq> exclusivity_conflicting_access \<and>
       last (diagArgs main) = AccessKindArg (getAccessKind M) \<and>
       (case getStorageDecl Ctx S of
          None \<Rightarrow> diagArgs main = [AccessKindArg (getAccessKind M)]
        | Some VD \<Rightarrow> diagArgs main =
            [DescriptiveKindArg (getDescriptiveKind VD), IdentifierArg (getBaseName VD),
             AccessKindArg (getAccessKind M)]) \<and>
       diagID note = exclusivity_conflicting_access \<and>
       diagLoc note = getSourceLoc (getLoc N) \<and>
       diagHighlights note = [getSourceRange (getLoc N)] \<and> diagFixIts note = []"
proof -
  define M where "M = (if getAccessKind Prior = Read then New else Prior)"
  define N where "N = (if getAccessKind Prior = Read then Prior else New)"
  have notboth: "\<not> (getAccessKind Prior = Read \<and> getAccessKind New = Read)"
    using assms by (auto simp: diagnoseExclusivityViolation_def)
  have MN: "(M = Prior \<and> N = New) \<or> (M = New \<and> N = Prior \<and> getRequiredAccess Prior = SharedAccess)"
    by (simp add: M_def N_def getRequiredAccess_def)
  have excl: "getRequiredAccess M = ExclusiveAccess"
    using notboth by (auto simp: M_def getRequiredAccess_def)
  have sel: "(if getRequiredAccess Prior \<noteq> ExclusiveAccess then New else Prior) = M"
      "(if getRequiredAccess Prior \<noteq> ExclusiveAccess then Prior else New) = N"
    by (simp_all add: M_def N_def getRequiredAccess_def)
  have "\<exists>main note. ds = [main, note] \<and>
       diagLoc main = getSourceLoc (getLoc M) \<and>
       diagHighlights main = [getSourceRange (getLoc M)] \<and>
       diagID main \<noteq> exclusivity_conflicting_access \<and>
       last (diagArgs main) = AccessKindArg (getAccessKind M) \<and>
       (case getStorageDecl Ctx S of
          None \<Rightarrow> diagArgs main = [AccessKindArg (getAccessKind M)]
        | Some VD \<Rightarrow> diagArgs main =
            [DescriptiveKindArg (getDescriptiveKind VD), IdentifierArg (getBaseName VD),
             AccessKindArg (getAccessKind M)]) \<and>
       diagID note = exclusivity_conflicting_access \<and>
       diagLoc note = getSourceLoc (getLoc N) \<and>
       diagHighlights note = [getSourceRange (getLoc N)] \<and> diagFixIts note = []"
    using assms notboth unfolding diagnoseExclusivityViolation_def Let_def sel
    by (auto split: option.splits sum.splits)
  then show ?thesis
    using MN excl by blast
qed

lemma readThenWriteFn_diagnostics:
  "checkStaticExclusivity readThenWriteFn (blocks readThenWriteFn) =
     ([\<lparr>diagLoc = 40, diagID = exclusivity_access_required,
        diagArgs = [DescriptiveKindArg ''var'', IdentifierArg ''g'', AccessKindArg Modify],
        diagHighlights = [(40, 41)], diagFixIts = []\<rparr>,
       \<lparr>diagLoc = 20, diagID = exclusivity_conflicting_access, diagArgs = [],
        diagHighlights = [(20, 21)], diagFixIts = []\<rparr>], None)"
  by (simp add: checkStaticExclusivity_def readThenWriteFn_def step_defs example_defs
        diagnoseExclusivityViolation_def getRequiredAccess_def
        tryFixItWithCallToCollectionSwapAt_def)

text \<open>
  Claim C5. Every recorded conflict is to give a main diagnostic at the access that requires
  exclusive access and a note at the access it conflicts with. The source misses this when
  the first access of a record has ended while another access to the location is open:
  \<^verbatim>\<open>endAccess\<close> keeps the first access until both counters are back at zero. On
  a read of \<open>g\<close>, a modification, the end of the read and a second read, with all markers
  well formed, the walk records the two reads as a conflict; neither requires exclusive
  access, and the emitter stops at its own assertion that a conflict is not between two
  reads, after the diagnostics of the first conflict. On two reads of \<open>g\<close>, the end of the
  first and a modification, the note is at the first read, which has ended, and not at the
  second, which is the one open.
\<close>

theorem stale_first_access_diagnostics:
  "wellFormedMarkers (instructions (hd (blocks staleFirstAccessFn))) \<and>
   visitInstructions plainCtx
     [BeginAccess readG1, BeginAccess writeG1, EndAccess (EndAccessInst 15 readG1),
      BeginAccess readG2] emptyLoopState =
     Inr \<lparr>Accesses = [GlobalVar globalG \<mapsto> \<lparr>Reads = 1, NonReads = 1, FirstAccess = Some readG1\<rparr>],
          ConflictingAccesses = [ConflictingAccess (GlobalVar globalG) readG1 writeG1,
                                 ConflictingAccess (GlobalVar globalG) readG1 readG2],
          CallsToSwap = []\<rparr> \<and>
   getRequiredAccess readG1 = SharedAccess \<and> getRequiredAccess readG2 = SharedAccess \<and>
   diagnoseExclusivityViolation (GlobalVar globalG) readG1 readG2 [] plainCtx =
     Inl (AssertionFailed ''both accesses are reads'') \<and>
   checkStaticExclusivity staleFirstAccessFn (blocks staleFirstAccessFn) =
     ([\<lparr>diagLoc = 40, diagID = exclusivity_access_required,
        diagArgs = [DescriptiveKindArg ''var'', IdentifierArg ''g'', AccessKindArg Modify],
        diagHighlights = [(40, 41)], diagFixIts = []\<rparr>,
       \<lparr>diagLoc = 20, diagID = exclusivity_conflicting_access, diagArgs = [],
        diagHighlights = [(20, 21)], diagFixIts = []\<rparr>],
      Some (AssertionFailed ''both accesses are reads'')) \<and>
   wellFormedMarkers (instructions (hd (blocks endedNoteFn))) \<and>
   openAccesses
     [BeginAccess readG1, BeginAccess readG2, EndAccess (EndAccessInst 15 readG1)] [] =
     Some [readG2] \<and>
   getSourceLoc (getLoc readG2) = 30 \<and>
   checkStaticExclusivity endedNoteFn (blocks endedNoteFn) =
     ([\<lparr>diagLoc = 40, diagID = exclusivity_access_required,
        diagArgs = [DescriptiveKindArg ''var'', IdentifierArg ''g'', AccessKindArg Modify],
        diagHighlights = [(40, 41)], diagFixIts = []\<rparr>,
       \<lparr>diagLoc = 20, diagID = exclusivity_conflicting_access, diagArgs = [],
        diagHighlights = [(20, 21)], diagFixIts = []\<rparr>], None)"
proof -
  have wf1: "wellFormedMarkers (instructions (hd (blocks staleFirstAccessFn)))"
    by (simp add: wellFormedMarkers_def supportedSource_def staleFirstAccessFn_def example_defs)
  have walk: "visitInstructions plainCtx
     [BeginAccess readG1, BeginAccess writeG1, EndAccess (EndAccessInst 15 readG1),
      BeginAccess readG2] emptyLoopState =
     Inr \<lparr>Accesses = [GlobalVar globalG \<mapsto> \<lparr>Reads = 1, NonReads = 1, FirstAccess = Some readG1\<rparr>],
          ConflictingAccesses = [ConflictingAccess (GlobalVar globalG) readG1 writeG1,
                                 ConflictingAccess (GlobalVar globalG) readG1 readG2],
          CallsToSwap = []\<rparr>"
    by (simp add: step_defs example_defs)
  have req: "getRequiredAccess readG1 = SharedAccess" "getRequiredAccess readG2 = SharedAccess"
    by (simp_all add: getRequiredAccess_def readG1_def readG2_def)
  have dg: "diagnoseExclusivityViolation (GlobalVar globalG) readG1 readG2 [] plainCtx =
     Inl (AssertionFailed ''both accesses are reads'')"
    by (simp add: diagnoseExclusivityViolation_def readG1_def readG2_def)
  have chk1: "checkStaticExclusivity staleFirstAccessFn (blocks staleFirstAccessFn) =
     ([\<lparr>diagLoc = 40, diagID = exclusivity_access_required,
        diagArgs = [DescriptiveKindArg ''var'', IdentifierArg ''g'', AccessKindArg Modify],
        diagHighlights = [(40, 41)], diagFixIts = []\<rparr>,
       \<lparr>diagLoc = 20, diagID = exclusivity_conflicting_access, diagArgs = [],
        diagHighlights = [(20, 21)], diagFixIts = []\<rparr>],
      Some (AssertionFailed ''both accesses are reads''))"
    by (simp add: checkStaticExclusivity_def staleFirstAccessFn_def step_defs example_defs
          diagnoseExclusivityViolation_def getRequiredAccess_def
          tryFixItWithCallToCollectionSwapAt_def)
  have wf2: "wellFormedMarkers (instructions (hd (blocks endedNoteFn)))"
    by (simp add: wellFormedMarkers_def supportedSource_def endedNoteFn_def example_defs)
  have opn: "openAccesses
     [BeginAccess readG1, BeginAccess readG2, EndAccess (EndAccessInst 15 readG1)] [] =
     Some [readG2]"
    by (simp add: readG1_def readG2_def)
  have loc: "getSourceLoc (getLoc readG2) = 30"
    by (simp add: readG2_def)
  have chk2: "checkStaticExclusivity endedNoteFn (blocks endedNoteFn) =
     ([\<lparr>diagLoc = 40, diagID = exclusivity_access_required,
        diagArgs = [DescriptiveKindArg ''var'', IdentifierArg ''g'', AccessKindArg Modify],
        diagHighlights = [(40, 41)], diagFixIts = []\<rparr>,
       \<lparr>diagLoc = 20, diagID = exclusivity_conflicting_access, diagArgs = [],
        diagHighlights = [(20, 21)], diagFixIts = []\<rparr>], None)"
    by (simp add: checkStaticExclusivity_def endedNoteFn_def step_defs example_defs
          diagnoseExclusivityViolation_def getRequiredAccess_def
          tryFixItWithCallToCollectionSwapAt_def)
  show ?thesis
    using wf1 walk req dg chk1 wf2 opn loc chk2 by blast
qed

subsection \<open>An end of access without a record\<close>

text \<open>
  Claim C8, as amended. At an \<^verbatim>\<open>end_access\<close> the source looks the location up and
  uses the result without a check. While the access it ends is among the open accesses the
  map agrees with, the record is there and the walk goes on. Where the location has no
  record, the source dereferences the \<^verbatim>\<open>end()\<close> iterator: neither an assertion nor
  \<^verbatim>\<open>llvm_unreachable\<close> is reached, and what happens is undefined.
\<close>

theorem end_access_finds_record:
  "(tracks opn (Accesses st) \<and> getBeginAccess EAI \<in> set opn \<and>
    findAccessedStorage (getSource (getBeginAccess EAI)) = Inr S \<longrightarrow>
      Accesses st S \<noteq> None \<and> (\<exists>st'. visitInstruction Ctx (EndAccess EAI) st = Inr st')) \<and>
   (findAccessedStorage (getSource (getBeginAccess EAI)) = Inr S \<and> Accesses st S = None \<longrightarrow>
      visitInstruction Ctx (EndAccess EAI) st =
        Inl (UndefinedBehavior ''dereferencing end() iterator'') \<and>
      (\<forall>msg. visitInstruction Ctx (EndAccess EAI) st \<noteq> Inl (AssertionFailed msg) \<and>
             visitInstruction Ctx (EndAccess EAI) st \<noteq> Inl (Unreachable msg)))"
proof (intro conjI impI)
  assume a: "tracks opn (Accesses st) \<and> getBeginAccess EAI \<in> set opn \<and>
    findAccessedStorage (getSource (getBeginAccess EAI)) = Inr S"
  then obtain st' where st': "visitInstruction Ctx (EndAccess EAI) st = Inr st'"
    using tracks_end[of opn st EAI S Ctx] by blast
  then show "\<exists>st'. visitInstruction Ctx (EndAccess EAI) st = Inr st'"
    by blast
  show "Accesses st S \<noteq> None"
    using st' a by (cases "Accesses st S") (auto simp: visitInstruction_def)
next
  assume b: "findAccessedStorage (getSource (getBeginAccess EAI)) = Inr S \<and> Accesses st S = None"
  then show "visitInstruction Ctx (EndAccess EAI) st =
        Inl (UndefinedBehavior ''dereferencing end() iterator'')"
    by (simp add: visitInstruction_def)
  then show "\<forall>msg. visitInstruction Ctx (EndAccess EAI) st \<noteq> Inl (AssertionFailed msg) \<and>
             visitInstruction Ctx (EndAccess EAI) st \<noteq> Inl (Unreachable msg)"
    by simp
qed

theorem end_access_finds_record_witness:
  "tracks [readG1] [GlobalVar globalG \<mapsto> \<lparr>Reads = 1, NonReads = 0, FirstAccess = Some readG1\<rparr>] \<and>
   (\<exists>st'. visitInstruction plainCtx (EndAccess (EndAccessInst 15 readG1))
       \<lparr>Accesses = [GlobalVar globalG \<mapsto> \<lparr>Reads = 1, NonReads = 0, FirstAccess = Some readG1\<rparr>],
        ConflictingAccesses = [], CallsToSwap = []\<rparr> = Inr st') \<and>
   Accesses emptyLoopState (GlobalVar globalG) = None \<and>
   visitInstruction plainCtx (EndAccess (EndAccessInst 15 readG1)) emptyLoopState =
     Inl (UndefinedBehavior ''dereferencing end() iterator'')"
proof -
  let ?info = "\<lparr>Reads = 1, NonReads = 0, FirstAccess = Some readG1\<rparr>"
  let ?st = "\<lparr>Accesses = [GlobalVar globalG \<mapsto> ?info], ConflictingAccesses = [], CallsToSwap = []\<rparr>"
  let ?EAI = "EndAccessInst 15 readG1"
  have src: "findAccessedStorage (getSource (getBeginAccess ?EAI)) = Inr (GlobalVar globalG)"
    by (simp add: readG1_def addrG_def)
  have tr: "tracks [readG1] [GlobalVar globalG \<mapsto> ?info]"
    by (auto simp: tracks_def openReads_def openNonReads_def readG1_def addrG_def)
  have mem: "getBeginAccess ?EAI \<in> set [readG1]"
    by simp
  have "tracks [readG1] (Accesses ?st) \<and> getBeginAccess ?EAI \<in> set [readG1] \<and>
      findAccessedStorage (getSource (getBeginAccess ?EAI)) = Inr (GlobalVar globalG)"
    using tr mem src by simp
  then have c1: "\<exists>st'. visitInstruction plainCtx (EndAccess ?EAI) ?st = Inr st'"
    using end_access_finds_record
      [of "[readG1]" ?st ?EAI "GlobalVar globalG" plainCtx, THEN conjunct1]
    by blast
  have none: "Accesses emptyLoopState (GlobalVar globalG) = None"
    by (simp add: emptyLoopState_def)
  have c2: "visitInstruction plainCtx (EndAccess ?EAI) emptyLoopState =
     Inl (UndefinedBehavior ''dereferencing end() iterator'')"
    using end_access_finds_record
      [of "[]" emptyLoopState ?EAI "GlobalVar globalG" plainCtx, THEN conjunct2] src none
    by blast
  show ?thesis
    using tr c1 none c2 by blast
qed

text \<open>
  Claim C8, as stated, fails: a function whose first instruction is an
  \<^verbatim>\<open>end_access\<close> reaches the unchecked dereference, not an assertion and not
  \<^verbatim>\<open>llvm_unreachable\<close>.
\<close>

theorem end_access_aborts_counterexample:
  "visitInstruction plainCtx (EndAccess (EndAccessInst 15 readG1)) emptyLoopState =
     Inl (UndefinedBehavior ''dereferencing end() iterator'') \<and>
   checkStaticExclusivity endOnlyFn (blocks endOnlyFn) =
     ([], Some (UndefinedBehavior ''dereferencing end() iterator''))"
  by (simp add: checkStaticExclusivity_def endOnlyFn_def step_defs example_defs)

subsection \<open>The Fix-It to \<open>swapAt\<close>\<close>

lemma findSwapCall_recorded:
  "findSwapCall Ctx io1 io2 Calls = Inr r \<Longrightarrow> r = recordedSwapCall io1 io2 Calls"
proof (induction Calls)
  case Nil
  then show ?case by simp
next
  case (Cons AI AIs)
  show ?case
  proof (cases "getAsCallExpr (applyLoc AI)")
    case None
    then show ?thesis using Cons by (auto split: if_splits)
  next
    case (Some CE)
    then have nn: "\<not> isNull (applyLoc AI)"
      by (cases "applyLoc AI" rule: getAsCallExpr.cases) auto
    show ?thesis
      using Cons Some nn
      by (auto split: if_splits Expr.splits list.splits)
  qed
qed

lemma witnessesMutableCollection_iff:
  "witnessesMutableCollection MC Reqs = Inr b \<Longrightarrow> b = (MC \<noteq> None \<and> MC \<in> set Reqs)"
  by (induction MC Reqs rule: witnessesMutableCollection.induct) (auto split: if_splits)

lemma isSubscriptOnMutableCollection_iff:
  "isSubscriptOnMutableCollection Ctx D = Inr b \<Longrightarrow> b = onMutableCollection Ctx D"
  using witnessesMutableCollection_iff
    [of "getMutableCollectionDecl Ctx" "getSatisfiedProtocolRequirements D" b]
  by (auto simp: isSubscriptOnMutableCollection_def onMutableCollection_def split: option.splits)

lemma swapAtFixIt_subscripts:
  assumes "swapAtFixIt Ctx CE (SubscriptExpr m1 B1 I1 D1 r1) (SubscriptExpr m2 B2 I2 D2 r2) = Inr r"
  shows "(r \<noteq> None) =
           ((case (D1, D2) of
               (Some d1, Some d2) \<Rightarrow> d1 = d2 \<and> onMutableCollection Ctx d1
             | _ \<Rightarrow> False) \<and>
            extractExprText B1 Ctx = extractExprText B2 Ctx \<and> isParenExpr I1 \<and> isParenExpr I2)"
    and "r \<noteq> None \<Longrightarrow>
           \<exists>p1 i1 q1 p2 i2 q2. I1 = ParenExpr p1 i1 q1 \<and> I2 = ParenExpr p2 i2 q2 \<and>
             r = Some (exprSourceRange CE,
                       extractExprText B1 Ctx @ ''.swapAt('' @ extractExprText i1 Ctx @ '', '' @
                       extractExprText i2 Ctx @ '')'')"
proof -
  obtain d1 d2 where d: "D1 = Some d1" "D2 = Some d2"
    "declKind d1 = SubscriptDeclKind" "declKind d2 = SubscriptDeclKind"
    using assms
    by (auto simp: swapAtFixIt_def castSubscriptDecl_def split: option.splits if_splits sum.splits)
  have c: "castSubscriptDecl D1 = Inr d1" "castSubscriptDecl D2 = Inr d2"
    using d by (simp_all add: castSubscriptDecl_def)
  show "(r \<noteq> None) =
           ((case (D1, D2) of
               (Some d1, Some d2) \<Rightarrow> d1 = d2 \<and> onMutableCollection Ctx d1
             | _ \<Rightarrow> False) \<and>
            extractExprText B1 Ctx = extractExprText B2 Ctx \<and> isParenExpr I1 \<and> isParenExpr I2)"
  proof (cases "d1 = d2")
    case False
    then show ?thesis using assms c d by (simp add: swapAtFixIt_def)
  next
    case True
    then obtain b where b: "isSubscriptOnMutableCollection Ctx d1 = Inr b"
      using assms c by (cases "isSubscriptOnMutableCollection Ctx d1") (auto simp: swapAtFixIt_def)
    then have bb: "b = onMutableCollection Ctx d1"
      by (rule isSubscriptOnMutableCollection_iff)
    show ?thesis
    proof (cases b)
      case False
      then show ?thesis using assms c d True b bb by (simp add: swapAtFixIt_def)
    next
      case on: True
      show ?thesis
      proof (cases "extractExprText B1 Ctx = extractExprText B2 Ctx")
        case False
        then show ?thesis using assms c d True b on by (simp add: swapAtFixIt_def)
      next
        case same: True
        show ?thesis
          using assms c d True b on bb same
          by (cases I1; cases I2) (auto simp: swapAtFixIt_def)
      qed
    qed
  qed
  show "\<exists>p1 i1 q1 p2 i2 q2. I1 = ParenExpr p1 i1 q1 \<and> I2 = ParenExpr p2 i2 q2 \<and>
             r = Some (exprSourceRange CE,
                       extractExprText B1 Ctx @ ''.swapAt('' @ extractExprText i1 Ctx @ '', '' @
                       extractExprText i2 Ctx @ '')'')" if "r \<noteq> None"
    using assms c that
    by (cases I1; cases I2)
       (auto simp: swapAtFixIt_def split: if_splits sum.splits bool.splits)
qed

lemma getAsInOutExpr_Some:
  "getAsInOutExpr l = Some e \<Longrightarrow> \<exists>n Sub r. e = InOutExpr n Sub r"
  by (cases l rule: getAsInOutExpr.cases) auto

lemma inoutSubscript_eq:
  "inoutSubscript A =
     (case getAsInOutExpr (getLoc A) of
        Some (InOutExpr n (SubscriptExpr m B I D r') r) \<Rightarrow>
          Some (InOutExpr n (SubscriptExpr m B I D r') r, B, I, D)
      | _ \<Rightarrow> None)"
  by (cases A rule: inoutSubscript.cases) auto

lemma isNull_getAsInOutExpr: "isNull l \<Longrightarrow> getAsInOutExpr l = None"
  by (cases l) auto

lemma tryFixIt_early:
  assumes "Calls = [] \<or> getAccessKind A1 \<noteq> Modify \<or> getAccessKind A2 \<noteq> Modify \<or>
           isNull (getLoc A1) \<or> isNull (getLoc A2)"
  shows "tryFixItWithCallToCollectionSwapAt A1 A2 Calls Ctx = Inr None"
proof (cases "Calls = []")
  case True
  then show ?thesis by (simp add: tryFixItWithCallToCollectionSwapAt_def)
next
  case False
  show ?thesis
  proof (cases "getAccessKind A1 \<noteq> Modify \<or> getAccessKind A2 \<noteq> Modify")
    case True
    then show ?thesis using False by (simp add: tryFixItWithCallToCollectionSwapAt_def)
  next
    case kinds: False
    then have "isNull (getLoc A1) \<or> isNull (getLoc A2)"
      using assms False by blast
    then show ?thesis using False kinds by (simp add: tryFixItWithCallToCollectionSwapAt_def)
  qed
qed

lemma tryFixIt_subscripts:
  assumes io1: "getAsInOutExpr (getLoc A1) = Some (InOutExpr n1 (SubscriptExpr m1 B1 I1 D1 r1') r1)"
    and io2: "getAsInOutExpr (getLoc A2) = Some (InOutExpr n2 (SubscriptExpr m2 B2 I2 D2 r2') r2)"
    and res: "tryFixItWithCallToCollectionSwapAt A1 A2 Calls Ctx = Inr r"
  shows "(r \<noteq> None) = fixItConditions Ctx Calls A1 A2 \<and>
         (r \<noteq> None \<longrightarrow> r = Some (swapAtReplacement Ctx Calls A1 A2))"
proof -
  let ?io1 = "InOutExpr n1 (SubscriptExpr m1 B1 I1 D1 r1') r1"
  let ?io2 = "InOutExpr n2 (SubscriptExpr m2 B2 I2 D2 r2') r2"
  have s1: "inoutSubscript A1 = Some (?io1, B1, I1, D1)"
    and s2: "inoutSubscript A2 = Some (?io2, B2, I2, D2)"
    using io1 io2 by (simp_all add: inoutSubscript_eq)
  have nn: "\<not> isNull (getLoc A1)" "\<not> isNull (getLoc A2)"
    using io1 io2 isNull_getAsInOutExpr by fastforce+
  show ?thesis
  proof (cases "Calls = [] \<or> getAccessKind A1 \<noteq> Modify \<or> getAccessKind A2 \<noteq> Modify")
    case True
    then have "r = None"
      using res tryFixIt_early[of Calls A1 A2 Ctx] by auto
    moreover have "\<not> fixItConditions Ctx Calls A1 A2"
      using True s1 s2 by (auto simp: fixItConditions_def)
    ultimately show ?thesis by simp
  next
    case False
    then have go: "(case findSwapCall Ctx ?io1 ?io2 Calls of
                   Inl e \<Rightarrow> Inl e
                 | Inr None \<Rightarrow> Inr None
                 | Inr (Some FoundCall) \<Rightarrow>
                     swapAtFixIt Ctx FoundCall (SubscriptExpr m1 B1 I1 D1 r1') (SubscriptExpr m2 B2 I2 D2 r2')) = Inr r"
      using res nn io1 io2 by (simp add: tryFixItWithCallToCollectionSwapAt_def)
    then obtain c where c: "findSwapCall Ctx ?io1 ?io2 Calls = Inr c"
      by (cases "findSwapCall Ctx ?io1 ?io2 Calls") auto
    then have rc: "c = recordedSwapCall ?io1 ?io2 Calls"
      by (rule findSwapCall_recorded)
    show ?thesis
    proof (cases c)
      case None
      then have "r = None" using go c by simp
      moreover have "\<not> fixItConditions Ctx Calls A1 A2"
        using None rc s1 s2 by (simp add: fixItConditions_def)
      ultimately show ?thesis by simp
    next
      case (Some CE)
      then have sw: "swapAtFixIt Ctx CE (SubscriptExpr m1 B1 I1 D1 r1') (SubscriptExpr m2 B2 I2 D2 r2') = Inr r"
        using go c by simp
      have iff: "(r \<noteq> None) = fixItConditions Ctx Calls A1 A2"
        using swapAtFixIt_subscripts(1)[OF sw] False Some rc s1 s2
        by (simp add: fixItConditions_def)
      have rep: "r = Some (swapAtReplacement Ctx Calls A1 A2)" if rnn: "r \<noteq> None"
      proof -
        obtain p1 i1 q1 p2 i2 q2 where p: "I1 = ParenExpr p1 i1 q1" "I2 = ParenExpr p2 i2 q2"
          "r = Some (exprSourceRange CE,
                       extractExprText B1 Ctx @ ''.swapAt('' @ extractExprText i1 Ctx @ '', '' @
                       extractExprText i2 Ctx @ '')'')"
          using swapAtFixIt_subscripts(2)[OF sw rnn] by blast
        show ?thesis
          using p s1 s2 Some rc by (simp add: swapAtReplacement_def)
      qed
      show ?thesis using iff rep by blast
    qed
  qed
qed

lemma tryFixIt_not_subscript:
  assumes "inoutSubscript A1 = None \<or> inoutSubscript A2 = None"
    and res: "tryFixItWithCallToCollectionSwapAt A1 A2 Calls Ctx = Inr r"
  shows "r = None \<and> \<not> fixItConditions Ctx Calls A1 A2"
proof -
  have nc: "\<not> fixItConditions Ctx Calls A1 A2"
    using assms(1) by (auto simp: fixItConditions_def split: option.splits)
  have "r = None"
  proof (cases "Calls = [] \<or> getAccessKind A1 \<noteq> Modify \<or> getAccessKind A2 \<noteq> Modify \<or>
                isNull (getLoc A1) \<or> isNull (getLoc A2)")
    case True
    then show ?thesis using res tryFixIt_early[of Calls A1 A2 Ctx] by auto
  next
    case False
    show ?thesis
    proof (cases "getAsInOutExpr (getLoc A1)")
      case None
      then show ?thesis using res False by (simp add: tryFixItWithCallToCollectionSwapAt_def)
    next
      case (Some e1)
      then obtain n1 Sub1 r1 where e1: "e1 = InOutExpr n1 Sub1 r1"
        using getAsInOutExpr_Some by blast
      show ?thesis
      proof (cases "getAsInOutExpr (getLoc A2)")
        case None
        then show ?thesis using res False Some e1 by (simp add: tryFixItWithCallToCollectionSwapAt_def)
      next
        case some2: (Some e2)
        then obtain n2 Sub2 r2 where e2: "e2 = InOutExpr n2 Sub2 r2"
          using getAsInOutExpr_Some by blast
        have go: "(case findSwapCall Ctx e1 e2 Calls of
                   Inl e \<Rightarrow> Inl e
                 | Inr None \<Rightarrow> Inr None
                 | Inr (Some FoundCall) \<Rightarrow> swapAtFixIt Ctx FoundCall Sub1 Sub2) = Inr r"
          using res False Some some2 e1 e2 by (simp add: tryFixItWithCallToCollectionSwapAt_def)
        have notsub: "(\<forall>m B I D r'. Sub1 \<noteq> SubscriptExpr m B I D r') \<or>
                      (\<forall>m B I D r'. Sub2 \<noteq> SubscriptExpr m B I D r')"
          using assms(1) Some some2 e1 e2
          by (cases Sub1; cases Sub2) (auto simp: inoutSubscript_eq)
        have "swapAtFixIt Ctx CE Sub1 Sub2 = Inr None" for CE
          using notsub by (cases Sub1; cases Sub2) (auto simp: swapAtFixIt_def)
        then show ?thesis
          using go by (auto split: sum.splits option.splits)
      qed
    qed
  qed
  then show ?thesis using nc by simp
qed

lemma tryFixIt_iff:
  assumes "tryFixItWithCallToCollectionSwapAt A1 A2 Calls Ctx = Inr r"
  shows "(r \<noteq> None) = fixItConditions Ctx Calls A1 A2 \<and>
         (r \<noteq> None \<longrightarrow> r = Some (swapAtReplacement Ctx Calls A1 A2))"
proof (cases "inoutSubscript A1 = None \<or> inoutSubscript A2 = None")
  case True
  then show ?thesis using tryFixIt_not_subscript[OF True assms] by simp
next
  case False
  then obtain x1 x2 where x: "inoutSubscript A1 = Some x1" "inoutSubscript A2 = Some x2"
    by auto
  from x(1) obtain n1 m1 B1 I1 D1 r1' r1 where
    1: "getAsInOutExpr (getLoc A1) = Some (InOutExpr n1 (SubscriptExpr m1 B1 I1 D1 r1') r1)"
    unfolding inoutSubscript_eq by (auto split: option.splits Expr.splits)
  from x(2) obtain n2 m2 B2 I2 D2 r2' r2 where
    2: "getAsInOutExpr (getLoc A2) = Some (InOutExpr n2 (SubscriptExpr m2 B2 I2 D2 r2') r2)"
    unfolding inoutSubscript_eq by (auto split: option.splits Expr.splits)
  show ?thesis
    by (rule tryFixIt_subscripts[OF 1 2 assms])
qed

lemmas swap_defs =
  sourceCtx_def swapDecl_def subscriptDecl_def declC_def swapSource_def inout1_def inout2_def
  swapApply_def swapAccess1_def swapAccess2_def addrC_def addressorC_def swapFn_def
  pairSource_def pairInout1_def pairInout2_def pairAccess1_def pairAccess2_def

lemmas fixit_defs =
  tryFixItWithCallToCollectionSwapAt_def swapAtFixIt_def castSubscriptDecl_def
  isSubscriptOnMutableCollection_def extractExprText_def diagnoseExclusivityViolation_def
  getRequiredAccess_def isCallToStandardLibrarySwap_def

lemma diagnoseExclusivityViolation_fixIts:
  assumes "diagnoseExclusivityViolation S A1 A2 Calls Ctx = Inr ds"
  shows "length ds = 2 \<and>
         diagFixIts (hd ds) =
           (if getStorageDecl Ctx S \<noteq> None \<and> fixItConditions Ctx Calls A1 A2
            then [swapAtReplacement Ctx Calls A1 A2] else []) \<and>
         diagFixIts (last ds) = []"
proof (cases "getStorageDecl Ctx S")
  case None
  then show ?thesis
    using assms by (auto simp: diagnoseExclusivityViolation_def Let_def split: if_splits)
next
  case (Some VD)
  then obtain r where r: "tryFixItWithCallToCollectionSwapAt A1 A2 Calls Ctx = Inr r"
    using assms
    by (cases "tryFixItWithCallToCollectionSwapAt A1 A2 Calls Ctx")
       (auto simp: diagnoseExclusivityViolation_def Let_def split: if_splits)
  have fx: "(case r of None \<Rightarrow> [] | Some f \<Rightarrow> [f]) =
      (if fixItConditions Ctx Calls A1 A2 then [swapAtReplacement Ctx Calls A1 A2] else [])"
    using tryFixIt_iff[OF r] by (cases r) auto
  show ?thesis
    using assms Some r fx
    by (auto simp: diagnoseExclusivityViolation_def Let_def split: if_splits)
qed

lemma diagnoseExclusivityViolation_emits:
  assumes "tryFixItWithCallToCollectionSwapAt A1 A2 Calls Ctx = Inr r"
    and "\<not> (getAccessKind A1 = Read \<and> getAccessKind A2 = Read)"
  shows "\<exists>ds. diagnoseExclusivityViolation S A1 A2 Calls Ctx = Inr ds \<and> length ds = 2"
  using assms
  by (cases "getStorageDecl Ctx S") (auto simp: diagnoseExclusivityViolation_def Let_def)

text \<open>
  Claim C6, as amended. Where no assertion of the heuristic fails, the Fix-It is attached
  iff both accesses are of kind \<open>Modify\<close>, both are \<open>inout\<close> expressions around a
  subscript, the two subscripts have the same declaration and that declaration is on the
  mutable collection protocol, the texts of the two bases are equal, the two \<open>inout\<close>
  expressions are the first and second argument of a recorded call to \<^verbatim>\<open>swap\<close>, and
  both index expressions are parenthesized expressions; it replaces the whole call by
  \<open><base>.swapAt(<index1>, <index2>)\<close>. The main diagnostic carries it iff moreover the
  storage has a declaration. A precondition that fails leaves both diagnostics in place.
\<close>

theorem swapAt_fixit_iff:
  "(tryFixItWithCallToCollectionSwapAt A1 A2 Calls Ctx = Inr r \<longrightarrow>
      (r \<noteq> None) = fixItConditions Ctx Calls A1 A2 \<and>
      (r \<noteq> None \<longrightarrow> r = Some (swapAtReplacement Ctx Calls A1 A2))) \<and>
   (diagnoseExclusivityViolation S A1 A2 Calls Ctx = Inr ds \<longrightarrow>
      length ds = 2 \<and>
      diagFixIts (hd ds) =
        (if getStorageDecl Ctx S \<noteq> None \<and> fixItConditions Ctx Calls A1 A2
         then [swapAtReplacement Ctx Calls A1 A2] else []) \<and>
      diagFixIts (last ds) = []) \<and>
   (tryFixItWithCallToCollectionSwapAt A1 A2 Calls Ctx = Inr None \<and>
    \<not> (getAccessKind A1 = Read \<and> getAccessKind A2 = Read) \<longrightarrow>
      (\<exists>ds'. diagnoseExclusivityViolation S A1 A2 Calls Ctx = Inr ds' \<and> length ds' = 2))"
  using tryFixIt_iff[of A1 A2 Calls Ctx r] diagnoseExclusivityViolation_fixIts[of S A1 A2 Calls Ctx ds]
    diagnoseExclusivityViolation_emits[of A1 A2 Calls Ctx None S]
  by blast

theorem swapAt_fixit_iff_witness:
  "tryFixItWithCallToCollectionSwapAt (swapAccess1 addrC) (swapAccess2 addrC)
     [swapApply inout1 inout2 (0, 18)] (sourceCtx swapSource) =
     Inr (Some ((0, 18), ''c.swapAt(i, j)'')) \<and>
   fixItConditions (sourceCtx swapSource) [swapApply inout1 inout2 (0, 18)]
     (swapAccess1 addrC) (swapAccess2 addrC) \<and>
   swapAtReplacement (sourceCtx swapSource) [swapApply inout1 inout2 (0, 18)]
     (swapAccess1 addrC) (swapAccess2 addrC) = ((0, 18), ''c.swapAt(i, j)'') \<and>
   checkStaticExclusivity swapFn (blocks swapFn) =
     ([\<lparr>diagLoc = 5, diagID = exclusivity_access_required,
        diagArgs = [DescriptiveKindArg ''var'', IdentifierArg ''c'', AccessKindArg Modify],
        diagHighlights = [(5, 10)], diagFixIts = [((0, 18), ''c.swapAt(i, j)'')]\<rparr>,
       \<lparr>diagLoc = 12, diagID = exclusivity_conflicting_access, diagArgs = [],
        diagHighlights = [(12, 17)], diagFixIts = []\<rparr>], None) \<and>
   tryFixItWithCallToCollectionSwapAt (swapAccess1 addrC) readG1
     [swapApply inout1 inout2 (0, 18)] (sourceCtx swapSource) = Inr None \<and>
   (\<exists>ds'. diagnoseExclusivityViolation (GlobalVar globalG) (swapAccess1 addrC) readG1
       [swapApply inout1 inout2 (0, 18)] (sourceCtx swapSource) = Inr ds' \<and> length ds' = 2)"
proof -
  let ?Ctx = "sourceCtx swapSource"
  let ?Calls = "[swapApply inout1 inout2 (0, 18)]"
  let ?A1 = "swapAccess1 addrC"
  let ?A2 = "swapAccess2 addrC"
  let ?S = "Value (AllocBoxInst 40 (SILLocation (Some (DeclNode declC)) 0 (0, 0)))"
  let ?fix = "((0, 18), ''c.swapAt(i, j)'') :: SourceRange \<times> string"
  let ?ds = "[\<lparr>diagLoc = 5, diagID = exclusivity_access_required,
        diagArgs = [DescriptiveKindArg ''var'', IdentifierArg ''c'', AccessKindArg Modify],
        diagHighlights = [(5, 10)], diagFixIts = [?fix]\<rparr>,
       \<lparr>diagLoc = 12, diagID = exclusivity_conflicting_access, diagArgs = [],
        diagHighlights = [(12, 17)], diagFixIts = []\<rparr>]"
  have run: "tryFixItWithCallToCollectionSwapAt ?A1 ?A2 ?Calls ?Ctx = Inr (Some ?fix)"
    by (simp add: fixit_defs swap_defs)
  have dg: "diagnoseExclusivityViolation ?S ?A1 ?A2 ?Calls ?Ctx = Inr ?ds"
    by (simp add: fixit_defs swap_defs)
  note inst = swapAt_fixit_iff [of ?A1 ?A2 ?Calls ?Ctx "Some ?fix" ?S ?ds]
  have c: "fixItConditions ?Ctx ?Calls ?A1 ?A2" "Some ?fix = Some (swapAtReplacement ?Ctx ?Calls ?A1 ?A2)"
    using inst [THEN conjunct1] run by simp_all
  have chk: "checkStaticExclusivity swapFn (blocks swapFn) = (?ds, None)"
    by (simp add: checkStaticExclusivity_def step_defs fixit_defs swap_defs)
  have none: "tryFixItWithCallToCollectionSwapAt ?A1 readG1 ?Calls ?Ctx = Inr None"
    by (simp add: fixit_defs swap_defs readG1_def)
  have kinds: "\<not> (getAccessKind ?A1 = Read \<and> getAccessKind readG1 = Read)"
    by (simp add: swapAccess1_def)
  have em: "\<exists>ds'. diagnoseExclusivityViolation (GlobalVar globalG) ?A1 readG1 ?Calls ?Ctx = Inr ds' \<and>
      length ds' = 2"
    using swapAt_fixit_iff [of ?A1 readG1 ?Calls ?Ctx None "GlobalVar globalG" "[]",
        THEN conjunct2, THEN conjunct2] none kinds
    by blast
  show ?thesis
    using run c chk none em by simp
qed

text \<open>
  Claim C6, as stated, fails: for \<open>swap(&c[i], &c[j])\<close> on a global \<open>c\<close> reached through
  its addressor every stated precondition holds, and the main diagnostic carries no Fix-It,
  since the storage has no declaration.
\<close>

theorem swapAt_fixit_stated_counterexample:
  "statedPreconditions (sourceCtx swapSource) [swapApply inout1 inout2 (0, 18)]
     (swapAccess1 addressorC) (swapAccess2 addressorC) \<and>
   findAccessedStorage (getSource (swapAccess1 addressorC)) = Inr (Value addressorC) \<and>
   findAccessedStorage (getSource (swapAccess2 addressorC)) = Inr (Value addressorC) \<and>
   diagnoseExclusivityViolation (Value addressorC) (swapAccess1 addressorC) (swapAccess2 addressorC)
     [swapApply inout1 inout2 (0, 18)] (sourceCtx swapSource) =
     Inr [\<lparr>diagLoc = 5, diagID = exclusivity_access_required_unknown_decl,
           diagArgs = [AccessKindArg Modify], diagHighlights = [(5, 10)], diagFixIts = []\<rparr>,
          \<lparr>diagLoc = 12, diagID = exclusivity_conflicting_access, diagArgs = [],
           diagHighlights = [(12, 17)], diagFixIts = []\<rparr>]"
  by (simp add: statedPreconditions_def onMutableCollection_def fixit_defs swap_defs)

subsection \<open>The shape of the index\<close>

text \<open>
  Claim C10. When the index expression of either subscript is not a parenthesized
  expression, no Fix-It is proposed, whatever else holds: the heuristic returns none and
  neither diagnostic carries one.
\<close>

theorem fixit_requires_paren_index:
  "inoutSubscript A1 = Some (io1, B1, I1, D1) \<and> inoutSubscript A2 = Some (io2, B2, I2, D2) \<and>
   (\<not> isParenExpr I1 \<or> \<not> isParenExpr I2) \<longrightarrow>
     tryFixItWithCallToCollectionSwapAt A1 A2 Calls Ctx \<noteq> Inr (Some fix) \<and>
     (diagnoseExclusivityViolation S A1 A2 Calls Ctx = Inr ds \<longrightarrow>
        diagFixIts (hd ds) = [] \<and> diagFixIts (last ds) = [])"
proof (intro impI conjI)
  assume a: "inoutSubscript A1 = Some (io1, B1, I1, D1) \<and> inoutSubscript A2 = Some (io2, B2, I2, D2) \<and>
   (\<not> isParenExpr I1 \<or> \<not> isParenExpr I2)"
  then have nc: "\<not> fixItConditions Ctx Calls A1 A2"
    by (auto simp: fixItConditions_def)
  show "tryFixItWithCallToCollectionSwapAt A1 A2 Calls Ctx \<noteq> Inr (Some fix)"
    using tryFixIt_iff[of A1 A2 Calls Ctx "Some fix"] nc by auto
  assume "diagnoseExclusivityViolation S A1 A2 Calls Ctx = Inr ds"
  then show "diagFixIts (hd ds) = []" "diagFixIts (last ds) = []"
    using diagnoseExclusivityViolation_fixIts[of S A1 A2 Calls Ctx ds] nc by simp_all
qed

theorem fixit_requires_paren_index_witness:
  "statedPreconditions (sourceCtx pairSource) [swapApply pairInout1 pairInout2 (0, 24)]
     pairAccess1 pairAccess2 \<and>
   \<not> isParenExpr (TupleExpr 81 [OtherExpr 82 (8, 9), OtherExpr 83 (11, 12)] (7, 13)) \<and>
   tryFixItWithCallToCollectionSwapAt pairAccess1 pairAccess2
     [swapApply pairInout1 pairInout2 (0, 24)] (sourceCtx pairSource) = Inr None \<and>
   diagnoseExclusivityViolation
     (Value (AllocBoxInst 40 (SILLocation (Some (DeclNode declC)) 0 (0, 0))))
     pairAccess1 pairAccess2 [swapApply pairInout1 pairInout2 (0, 24)] (sourceCtx pairSource) =
     Inr [\<lparr>diagLoc = 5, diagID = exclusivity_access_required,
           diagArgs = [DescriptiveKindArg ''var'', IdentifierArg ''c'', AccessKindArg Modify],
           diagHighlights = [(5, 13)], diagFixIts = []\<rparr>,
          \<lparr>diagLoc = 15, diagID = exclusivity_conflicting_access, diagArgs = [],
           diagHighlights = [(15, 23)], diagFixIts = []\<rparr>]"
proof -
  let ?Ctx = "sourceCtx pairSource"
  let ?Calls = "[swapApply pairInout1 pairInout2 (0, 24)]"
  let ?S = "Value (AllocBoxInst 40 (SILLocation (Some (DeclNode declC)) 0 (0, 0)))"
  let ?I1 = "TupleExpr 81 [OtherExpr 82 (8, 9), OtherExpr 83 (11, 12)] (7, 13)"
  let ?I2 = "TupleExpr 87 [OtherExpr 88 (18, 19), OtherExpr 89 (21, 22)] (17, 23)"
  let ?ds = "[\<lparr>diagLoc = 5, diagID = exclusivity_access_required,
           diagArgs = [DescriptiveKindArg ''var'', IdentifierArg ''c'', AccessKindArg Modify],
           diagHighlights = [(5, 13)], diagFixIts = []\<rparr>,
          \<lparr>diagLoc = 15, diagID = exclusivity_conflicting_access, diagArgs = [],
           diagHighlights = [(15, 23)], diagFixIts = []\<rparr>]"
  have pre: "statedPreconditions ?Ctx ?Calls pairAccess1 pairAccess2"
    by (simp add: statedPreconditions_def onMutableCollection_def extractExprText_def swap_defs)
  have s: "inoutSubscript pairAccess1 = Some (pairInout1, DeclRefExpr 80 declC (6, 7), ?I1, Some subscriptDecl) \<and>
           inoutSubscript pairAccess2 = Some (pairInout2, DeclRefExpr 86 declC (16, 17), ?I2, Some subscriptDecl) \<and>
           (\<not> isParenExpr ?I1 \<or> \<not> isParenExpr ?I2)"
    by (simp add: pairAccess1_def pairAccess2_def pairInout1_def pairInout2_def)
  have r: "\<exists>r. tryFixItWithCallToCollectionSwapAt pairAccess1 pairAccess2 ?Calls ?Ctx = Inr r"
    by (simp add: fixit_defs swap_defs)
  have dg: "\<exists>main note fx. diagnoseExclusivityViolation ?S pairAccess1 pairAccess2 ?Calls ?Ctx =
      Inr [\<lparr>diagLoc = 5, diagID = exclusivity_access_required,
           diagArgs = [DescriptiveKindArg ''var'', IdentifierArg ''c'', AccessKindArg Modify],
           diagHighlights = [(5, 13)], diagFixIts = fx\<rparr>,
          \<lparr>diagLoc = 15, diagID = exclusivity_conflicting_access, diagArgs = [],
           diagHighlights = [(15, 23)], diagFixIts = []\<rparr>]"
    by (simp add: fixit_defs swap_defs)
  note inst = fixit_requires_paren_index
    [of pairAccess1 pairInout1 "DeclRefExpr 80 declC (6, 7)" ?I1 "Some subscriptDecl"
        pairAccess2 pairInout2 "DeclRefExpr 86 declC (16, 17)" ?I2 "Some subscriptDecl",
     THEN mp, OF s]
  have none: "tryFixItWithCallToCollectionSwapAt pairAccess1 pairAccess2 ?Calls ?Ctx = Inr None"
    using r inst [of ?Calls ?Ctx _ ?S "[]", THEN conjunct1]
    by (metis option.exhaust)
  have "diagnoseExclusivityViolation ?S pairAccess1 pairAccess2 ?Calls ?Ctx = Inr ?ds"
    using dg inst [of ?Calls ?Ctx "((0, 0), [])" ?S, THEN conjunct2]
    by fastforce
  then show ?thesis
    using pre s none by simp
qed

end
